theory Spec2Isabelle
  imports Main "HOL-Library.Char_ord"
begin

section \<open>The editor core (package editor)\<close>

text \<open>
  Go's \<open>int\<close> is modelled as \<open>int\<close>; lengths of strings and slices are far below
  \<open>2 ^ 63\<close>, so \<open>len(x) + 1\<close> never wraps. The two additions of caller-supplied
  deltas in \<open>MoveCursor\<close> are wrapped explicitly (\<open>wrap64\<close>).
  A Go \<open>string\<close> is a byte sequence: \<open>string\<close> here, one \<open>char\<close> per byte.
  A run-time panic (index or slice bounds out of range) is the \<open>Inl\<close> branch of a sum.
\<close>

datatype panic = IndexOutOfRange | SliceBoundsOutOfRange

record Position =
  Line :: int
  Col :: int

record Selection =
  Anchor :: Position
  Head :: Position

datatype Mode = ModeNormal | ModeInsert | ModeVisual | ModeCommand

record Buffer =
  lines :: "string list"
  filename :: string
  dirty :: bool

record Editor =
  buffer :: Buffer
  cursor :: Position
  selection :: Selection
  mode :: Mode
  command :: string
  clipboard :: string

type_synonym rune = int

subsection \<open>Selection\<close>

definition NewSelection :: "Position \<Rightarrow> Selection" where
  "NewSelection pos = \<lparr>Anchor = pos, Head = pos\<rparr>"

definition IsEmpty :: "Selection \<Rightarrow> bool" where
  "IsEmpty s = (Anchor s = Head s)"

definition Start :: "Selection \<Rightarrow> Position" where
  "Start s =
     (if Line (Anchor s) < Line (Head s)
         \<or> (Line (Anchor s) = Line (Head s) \<and> Col (Anchor s) < Col (Head s))
      then Anchor s else Head s)"

definition End :: "Selection \<Rightarrow> Position" where
  "End s =
     (if Line (Anchor s) > Line (Head s)
         \<or> (Line (Anchor s) = Line (Head s) \<and> Col (Anchor s) > Col (Head s))
      then Anchor s else Head s)"

definition ExtendTo :: "Selection \<Rightarrow> Position \<Rightarrow> Selection" where
  "ExtendTo s pos = s\<lparr>Head := pos\<rparr>"

subsection \<open>Go string and slice primitives\<close>

definition len :: "'a list \<Rightarrow> int" where
  "len xs = int (length xs)"

text \<open>\<open>s[i]\<close>: panics unless \<open>0 \<le> i < len(s)\<close>.\<close>

definition index :: "'a list \<Rightarrow> int \<Rightarrow> panic + 'a" where
  "index xs i = (if 0 \<le> i \<and> i < len xs then Inr (xs ! nat i) else Inl IndexOutOfRange)"

text \<open>\<open>s[lo:hi]\<close>, \<open>s[:hi]\<close> and \<open>s[lo:]\<close>: panic unless \<open>0 \<le> lo \<le> hi \<le> len(s)\<close>.\<close>

definition slice :: "'a list \<Rightarrow> int \<Rightarrow> int \<Rightarrow> panic + 'a list" where
  "slice xs lo hi =
     (if 0 \<le> lo \<and> lo \<le> hi \<and> hi \<le> len xs
      then Inr (take (nat hi - nat lo) (drop (nat lo) xs))
      else Inl SliceBoundsOutOfRange)"

definition slice_to :: "'a list \<Rightarrow> int \<Rightarrow> panic + 'a list" where
  "slice_to xs hi = slice xs 0 hi"

definition slice_from :: "'a list \<Rightarrow> int \<Rightarrow> panic + 'a list" where
  "slice_from xs lo = slice xs lo (len xs)"

text \<open>Sequencing of a computation that may panic.\<close>

definition andThen :: "panic + 'a \<Rightarrow> ('a \<Rightarrow> panic + 'b) \<Rightarrow> panic + 'b" where
  "andThen m f = (case m of Inl e \<Rightarrow> Inl e | Inr x \<Rightarrow> f x)"

text \<open>
  \<open>string(ch)\<close> for a rune: its UTF-8 encoding; surrogates and values outside
  \<open>[0, 0x10FFFF]\<close> become U+FFFD.
\<close>

definition byte :: "int \<Rightarrow> char" where
  "byte n = char_of (nat n)"

definition string_of_rune :: "rune \<Rightarrow> string" where
  "string_of_rune r =
     (if 0 \<le> r \<and> r < 128 then [byte r]
      else if 0 \<le> r \<and> r < 2048 then [byte (192 + r div 64), byte (128 + r mod 64)]
      else if r < 0 \<or> 1114111 < r \<or> (55296 \<le> r \<and> r \<le> 57343) then [byte 239, byte 191, byte 189]
      else if r < 65536
        then [byte (224 + r div 4096), byte (128 + (r div 64) mod 64), byte (128 + r mod 64)]
      else [byte (240 + r div 262144), byte (128 + (r div 4096) mod 64),
            byte (128 + (r div 64) mod 64), byte (128 + r mod 64)])"

definition LF :: char where
  "LF = CHR 0x0A"

definition CR :: char where
  "CR = CHR 0x0D"

text \<open>\<open>strings.ReplaceAll(text, "\r\n", "\n")\<close>: left to right, non-overlapping.\<close>

fun ReplaceAll_CRLF :: "string \<Rightarrow> string" where
  "ReplaceAll_CRLF [] = []"
| "ReplaceAll_CRLF [c] = [c]"
| "ReplaceAll_CRLF (c # d # ds) =
     (if c = CR \<and> d = LF then LF # ReplaceAll_CRLF ds else c # ReplaceAll_CRLF (d # ds))"

text \<open>
  \<open>strings.Split(s, "\n")\<close>: the pieces between the separators, \<open>cur\<close> holding the
  piece being read (reversed); always at least one piece.
\<close>

fun Split_from :: "string \<Rightarrow> string \<Rightarrow> string list" where
  "Split_from cur [] = [rev cur]"
| "Split_from cur (c # cs) =
     (if c = LF then rev cur # Split_from [] cs else Split_from (c # cur) cs)"

definition Split_LF :: "string \<Rightarrow> string list" where
  "Split_LF s = Split_from [] s"

text \<open>\<open>strings.Join(elems, "\n")\<close>.\<close>

fun Join_LF :: "string list \<Rightarrow> string" where
  "Join_LF [] = []"
| "Join_LF [x] = x"
| "Join_LF (x # y # ys) = x @ LF # Join_LF (y # ys)"

subsection \<open>Buffer\<close>

definition NewBuffer :: Buffer where
  "NewBuffer = \<lparr>lines = [[]], filename = [], dirty = False\<rparr>"

text \<open>The outcome of \<open>os.ReadFile\<close>, supplied by the environment.\<close>

datatype read_result = ReadOk string | ReadNotExist | ReadFailed

text \<open>\<open>LoadFile\<close> returns the buffer and whether an error is returned.\<close>

definition Buffer_LoadFile :: "Buffer \<Rightarrow> string \<Rightarrow> read_result \<Rightarrow> Buffer \<times> bool" where
  "Buffer_LoadFile b name r =
     (case r of
        ReadNotExist \<Rightarrow> (b\<lparr>lines := [[]], filename := name, dirty := False\<rparr>, False)
      | ReadFailed \<Rightarrow> (b, True)
      | ReadOk text \<Rightarrow>
          (b\<lparr>lines := (if text = [] then [[]] else Split_LF (ReplaceAll_CRLF text)),
             filename := name, dirty := False\<rparr>, False))"

text \<open>
  \<open>SaveFile\<close>: \<open>write_ok\<close> is the outcome of \<open>os.WriteFile\<close>. The result is the
  buffer, the write that was requested (file name and content), and whether an error is
  returned.
\<close>

definition Buffer_SaveFile :: "bool \<Rightarrow> Buffer \<Rightarrow> Buffer \<times> (string \<times> string) option \<times> bool" where
  "Buffer_SaveFile write_ok b =
     (if filename b = [] then (b, None, False)
      else let content = Join_LF (lines b)
           in (if write_ok then b\<lparr>dirty := False\<rparr> else b,
               Some (filename b, content), \<not> write_ok))"

definition LineCount :: "Buffer \<Rightarrow> int" where
  "LineCount b = len (lines b)"

definition GetLine :: "Buffer \<Rightarrow> int \<Rightarrow> string" where
  "GetLine b n = (if n < 0 \<or> n \<ge> len (lines b) then [] else lines b ! nat n)"

definition Buffer_InsertChar :: "Buffer \<Rightarrow> Position \<Rightarrow> rune \<Rightarrow> panic + Buffer \<times> Position" where
  "Buffer_InsertChar b pos ch =
     (if Line pos \<ge> len (lines b) then Inr (b, pos)
      else andThen (index (lines b) (Line pos)) (\<lambda>line.
        let col = (if Col pos > len line then len line else Col pos) in
        andThen (slice_to line col) (\<lambda>before.
        andThen (slice_from line col) (\<lambda>after.
          Inr (b\<lparr>lines := (lines b)[nat (Line pos) := before @ string_of_rune ch @ after],
                 dirty := True\<rparr>,
               \<lparr>Line = Line pos, Col = col + 1\<rparr>)))))"

definition Buffer_InsertNewline :: "Buffer \<Rightarrow> Position \<Rightarrow> panic + Buffer \<times> Position" where
  "Buffer_InsertNewline b pos =
     (if Line pos \<ge> len (lines b) then Inr (b, pos)
      else andThen (index (lines b) (Line pos)) (\<lambda>line.
        let col = (if Col pos > len line then len line else Col pos) in
        andThen (slice_to line col) (\<lambda>before.
        andThen (slice_from line col) (\<lambda>after.
          let ls = (lines b)[nat (Line pos) := before] in
          andThen (slice_to ls (Line pos + 1)) (\<lambda>upto.
          andThen (slice_from ls (Line pos + 1)) (\<lambda>rest.
            Inr (b\<lparr>lines := upto @ [after] @ rest, dirty := True\<rparr>,
                 \<lparr>Line = Line pos + 1, Col = 0\<rparr>)))))))"

definition Buffer_DeleteChar :: "Buffer \<Rightarrow> Position \<Rightarrow> panic + Buffer \<times> Position" where
  "Buffer_DeleteChar b pos =
     (if Line pos \<ge> len (lines b) then Inr (b, pos)
      else andThen (index (lines b) (Line pos)) (\<lambda>line.
        if Col pos > 0 \<and> Col pos \<le> len line then
          andThen (slice_to line (Col pos - 1)) (\<lambda>before.
          andThen (slice_from line (Col pos)) (\<lambda>after.
            Inr (b\<lparr>lines := (lines b)[nat (Line pos) := before @ after], dirty := True\<rparr>,
                 \<lparr>Line = Line pos, Col = Col pos - 1\<rparr>)))
        else if Col pos = 0 \<and> Line pos > 0 then
          andThen (index (lines b) (Line pos - 1)) (\<lambda>prevLine.
            let ls = (lines b)[nat (Line pos - 1) := prevLine @ line] in
            andThen (slice_to ls (Line pos)) (\<lambda>upto.
            andThen (slice_from ls (Line pos + 1)) (\<lambda>rest.
              Inr (b\<lparr>lines := upto @ rest, dirty := True\<rparr>,
                   \<lparr>Line = Line pos - 1, Col = len prevLine\<rparr>))))
        else Inr (b, pos)))"

definition Buffer_DeleteSelection :: "Buffer \<Rightarrow> Selection \<Rightarrow> panic + Buffer \<times> Position" where
  "Buffer_DeleteSelection b sel =
     (let start = Start sel; end = End sel in
      if Line start = Line end then
        andThen (index (lines b) (Line start)) (\<lambda>line.
        andThen (slice_to line (Col start)) (\<lambda>before.
        andThen (slice_from line (Col end)) (\<lambda>after.
          Inr (b\<lparr>lines := (lines b)[nat (Line start) := before @ after], dirty := True\<rparr>,
               start))))
      else
        andThen (index (lines b) (Line start)) (\<lambda>l1.
        andThen (slice_to l1 (Col start)) (\<lambda>startLine.
        andThen (index (lines b) (Line end)) (\<lambda>l2.
        andThen (slice_from l2 (Col end)) (\<lambda>endLine.
          let ls = (lines b)[nat (Line start) := startLine @ endLine] in
          if Line end + 1 < len ls then
            andThen (slice_to ls (Line start + 1)) (\<lambda>upto.
            andThen (slice_from ls (Line end + 1)) (\<lambda>rest.
              Inr (b\<lparr>lines := upto @ rest, dirty := True\<rparr>, start)))
          else
            andThen (slice_to ls (Line start + 1)) (\<lambda>upto.
              Inr (b\<lparr>lines := upto, dirty := True\<rparr>, start)))))))"

function GetSelectedText_loop ::
  "Buffer \<Rightarrow> Position \<Rightarrow> Position \<Rightarrow> int \<Rightarrow> string \<Rightarrow> panic + string" where
  "GetSelectedText_loop b start end i result =
     (if i \<le> Line end \<and> i < len (lines b) then
        (let line = GetLine b i in
         if i = Line start then
           andThen (if Col start < len line
                    then andThen (slice_from line (Col start)) (\<lambda>s. Inr (result @ s))
                    else Inr result)
             (\<lambda>r. GetSelectedText_loop b start end (i + 1) (r @ [LF]))
         else if i = Line end then
           andThen (if Col end > 0 \<and> Col end \<le> len line
                    then andThen (slice_to line (Col end)) (\<lambda>s. Inr (result @ s))
                    else Inr result)
             (\<lambda>r. GetSelectedText_loop b start end (i + 1) r)
         else GetSelectedText_loop b start end (i + 1) (result @ line @ [LF]))
      else Inr result)"
  by pat_completeness auto
termination
  by (relation "measure (\<lambda>(b, start, end, i, result). nat (len (lines b) - i))") auto

definition GetSelectedText :: "Buffer \<Rightarrow> Selection \<Rightarrow> panic + string" where
  "GetSelectedText b sel =
     (let start = Start sel; end = End sel in
      if Line start = Line end then
        (let line = GetLine b (Line start) in
         if Col start \<ge> len line \<or> Col end > len line then Inr []
         else slice line (Col start) (Col end))
      else GetSelectedText_loop b start end (Line start) [])"

definition IsDirty :: "Buffer \<Rightarrow> bool" where
  "IsDirty b = dirty b"

subsection \<open>UTF-8 (unicode/utf8) and \<open>strings.TrimSpace\<close>\<close>

definition RuneError :: rune where
  "RuneError = 65533"

definition b2i :: "char \<Rightarrow> int" where
  "b2i c = of_char c"

text \<open>
  The table \<open>first\<close> of unicode/utf8: for a leading byte, the length of the sequence
  and the range accepted for the second byte; \<open>None\<close> for a byte that starts no
  sequence.
\<close>

definition first_byte :: "int \<Rightarrow> (nat \<times> int \<times> int) option" where
  "first_byte b0 =
     (if 194 \<le> b0 \<and> b0 \<le> 223 then Some (2, 128, 191)
      else if b0 = 224 then Some (3, 160, 191)
      else if (225 \<le> b0 \<and> b0 \<le> 236) \<or> b0 = 238 \<or> b0 = 239 then Some (3, 128, 191)
      else if b0 = 237 then Some (3, 128, 159)
      else if b0 = 240 then Some (4, 144, 191)
      else if 241 \<le> b0 \<and> b0 \<le> 243 then Some (4, 128, 191)
      else if b0 = 244 then Some (4, 128, 143)
      else None)"

text \<open>\<open>utf8.DecodeRuneInString\<close>: the rune and its width in bytes.\<close>

definition DecodeRune :: "string \<Rightarrow> rune \<times> nat" where
  "DecodeRune s =
     (case s of
        [] \<Rightarrow> (RuneError, 0)
      | c0 # rest \<Rightarrow>
          let b0 = b2i c0 in
          if b0 < 128 then (b0, 1)
          else (case first_byte b0 of
                  None \<Rightarrow> (RuneError, 1)
                | Some (wid, lo, hi) \<Rightarrow>
                    if length s < wid then (RuneError, 1)
                    else let b1 = b2i (s ! 1) in
                      if b1 < lo \<or> hi < b1 then (RuneError, 1)
                      else if wid \<le> 2 then ((b0 mod 32) * 64 + b1 mod 64, 2)
                      else let b2 = b2i (s ! 2) in
                        if b2 < 128 \<or> 191 < b2 then (RuneError, 1)
                        else if wid \<le> 3
                          then ((b0 mod 16) * 4096 + (b1 mod 64) * 64 + b2 mod 64, 3)
                        else let b3 = b2i (s ! 3) in
                          if b3 < 128 \<or> 191 < b3 then (RuneError, 1)
                          else ((b0 mod 8) * 262144 + (b1 mod 64) * 4096
                                + (b2 mod 64) * 64 + b3 mod 64, 4)))"

text \<open>
  \<open>for _, ch := range s\<close>: the runes of a string, an invalid byte giving U+FFFD and
  advancing by one byte. The head byte is matched so that the recursion is structural;
  the width is at least one.
\<close>

fun runes :: "string \<Rightarrow> rune list" where
  "runes [] = []"
| "runes (c # cs) =
     (case DecodeRune (c # cs) of (r, wid) \<Rightarrow> r # runes (drop (wid - 1) cs))"

definition RuneStart :: "char \<Rightarrow> bool" where
  "RuneStart c = (\<not> (128 \<le> b2i c \<and> b2i c < 192))"

text \<open>
  \<open>utf8.DecodeLastRuneInString\<close>: steps back over at most three bytes to a byte that
  starts a rune, decodes from there, and accepts the rune only if it ends the string.
\<close>

definition lastRuneSpan :: "string \<Rightarrow> nat" where
  "lastRuneSpan s =
     (let n = length s in
      if 2 \<le> n \<and> RuneStart (s ! (n - 2)) then 2
      else if 3 \<le> n \<and> RuneStart (s ! (n - 3)) then 3
      else if 4 \<le> n \<and> RuneStart (s ! (n - 4)) then 4
      else min n 5)"

definition DecodeLastRune :: "string \<Rightarrow> rune \<times> nat" where
  "DecodeLastRune s =
     (if s = [] then (RuneError, 0)
      else if b2i (last s) < 128 then (b2i (last s), 1)
      else let k = lastRuneSpan s in
           case DecodeRune (drop (length s - k) s) of
             (r, wid) \<Rightarrow> if wid \<noteq> k then (RuneError, 1) else (r, wid))"

text \<open>\<open>unicode.IsSpace\<close>.\<close>

definition IsSpace :: "rune \<Rightarrow> bool" where
  "IsSpace r =
     (if 0 \<le> r \<and> r \<le> 255
      then r = 9 \<or> r = 10 \<or> r = 11 \<or> r = 12 \<or> r = 13 \<or> r = 32 \<or> r = 133 \<or> r = 160
      else r = 5760 \<or> (8192 \<le> r \<and> r \<le> 8202) \<or> r = 8232 \<or> r = 8233 \<or> r = 8239
           \<or> r = 8287 \<or> r = 12288)"

definition asciiSpace :: "char \<Rightarrow> bool" where
  "asciiSpace c = (b2i c = 9 \<or> b2i c = 10 \<or> b2i c = 11 \<or> b2i c = 12 \<or> b2i c = 13 \<or> b2i c = 32)"

text \<open>\<open>strings.TrimLeftFunc(s, unicode.IsSpace)\<close>.\<close>

fun TrimLeftFunc :: "string \<Rightarrow> string" where
  "TrimLeftFunc [] = []"
| "TrimLeftFunc (c # cs) =
     (case DecodeRune (c # cs) of
        (r, wid) \<Rightarrow> if IsSpace r then TrimLeftFunc (drop (wid - 1) cs) else c # cs)"

text \<open>
  \<open>lastIndexFunc(s, unicode.IsSpace, false)\<close> on the prefix still to be looked at:
  the start of the last rune that is not a space. The width of the last rune of a
  non-empty string is at least one (\<open>DecodeLastRune_width\<close> below); \<open>max 1\<close> only
  makes the recursion visibly shorter.
\<close>

function lastIndexFunc :: "string \<Rightarrow> nat option" where
  "lastIndexFunc p =
     (if p = [] then None
      else case DecodeLastRune p of
             (r, wid) \<Rightarrow>
               if \<not> IsSpace r then Some (length p - wid)
               else lastIndexFunc (take (length p - max 1 wid) p))"
  by pat_completeness auto
termination
  by (relation "measure length") auto

definition TrimRightFunc :: "string \<Rightarrow> string" where
  "TrimRightFunc s =
     (case lastIndexFunc s of
        None \<Rightarrow> []
      | Some i \<Rightarrow>
          if b2i (s ! i) \<ge> 128 then take (i + snd (DecodeRune (drop i s))) s
          else take (i + 1) s)"

definition TrimFunc :: "string \<Rightarrow> string" where
  "TrimFunc s = TrimRightFunc (TrimLeftFunc s)"

text \<open>
  \<open>strings.TrimSpace\<close>: the ASCII fast path from the left, then from the right (on the
  reversed string), each handing over to the Unicode-aware functions at the first byte
  \<open>\<ge> 0x80\<close>.
\<close>

fun TrimSpace_stop :: "string \<Rightarrow> string" where
  "TrimSpace_stop [] = []"
| "TrimSpace_stop (c # rs) =
     (if b2i c \<ge> 128 then rev (TrimRightFunc (rev (c # rs)))
      else if asciiSpace c then TrimSpace_stop rs
      else c # rs)"

fun TrimSpace :: "string \<Rightarrow> string" where
  "TrimSpace [] = []"
| "TrimSpace (c # cs) =
     (if b2i c \<ge> 128 then TrimFunc (c # cs)
      else if asciiSpace c then TrimSpace cs
      else rev (TrimSpace_stop (rev (c # cs))))"

subsection \<open>Editor\<close>

definition New :: Editor where
  "New = \<lparr>buffer = NewBuffer, cursor = \<lparr>Line = 0, Col = 0\<rparr>,
           selection = NewSelection \<lparr>Line = 0, Col = 0\<rparr>, mode = ModeNormal,
           command = [], clipboard = []\<rparr>"

definition Editor_LoadFile :: "Editor \<Rightarrow> string \<Rightarrow> read_result \<Rightarrow> Editor \<times> bool" where
  "Editor_LoadFile e name r =
     (case Buffer_LoadFile (buffer e) name r of (b, err) \<Rightarrow> (e\<lparr>buffer := b\<rparr>, err))"

definition Editor_SaveFile :: "bool \<Rightarrow> Editor \<Rightarrow> Editor \<times> (string \<times> string) option \<times> bool" where
  "Editor_SaveFile write_ok e =
     (case Buffer_SaveFile write_ok (buffer e) of (b, w, err) \<Rightarrow> (e\<lparr>buffer := b\<rparr>, w, err))"

definition SetMode :: "Editor \<Rightarrow> Mode \<Rightarrow> Editor" where
  "SetMode e m =
     (let e1 = e\<lparr>mode := m\<rparr> in
      if m \<noteq> ModeVisual then e1\<lparr>selection := NewSelection (cursor e1)\<rparr> else e1)"

definition clampCursor :: "Editor \<Rightarrow> Editor" where
  "clampCursor e =
     (let l0 = Line (cursor e);
          l1 = (if l0 < 0 then 0 else l0);
          l2 = (if l1 \<ge> LineCount (buffer e) then LineCount (buffer e) - 1 else l1);
          l3 = (if l2 < 0 then 0 else l2);
          lineLen = len (GetLine (buffer e) l3);
          c0 = Col (cursor e);
          c1 = (if mode e = ModeNormal \<and> lineLen > 0
                then (if c0 \<ge> lineLen then lineLen - 1 else c0)
                else (if c0 > lineLen then lineLen else c0));
          c2 = (if c1 < 0 then 0 else c1)
      in e\<lparr>cursor := \<lparr>Line = l3, Col = c2\<rparr>\<rparr>)"

text \<open>
  The tail shared by the movement commands: in Visual mode the selection's head follows
  the cursor, otherwise the selection collapses onto it.
\<close>

definition followCursor :: "Editor \<Rightarrow> Editor" where
  "followCursor e =
     (if mode e = ModeVisual then e\<lparr>selection := ExtendTo (selection e) (cursor e)\<rparr>
      else e\<lparr>selection := NewSelection (cursor e)\<rparr>)"

text \<open>Two's-complement wrap-around of a 64-bit \<open>int\<close>.\<close>

definition wrap64 :: "int \<Rightarrow> int" where
  "wrap64 n = (n + 2 ^ 63) mod 2 ^ 64 - 2 ^ 63"

definition MoveCursor :: "Editor \<Rightarrow> int \<Rightarrow> int \<Rightarrow> Editor" where
  "MoveCursor e dLine dCol =
     followCursor (clampCursor
       (e\<lparr>cursor := \<lparr>Line = wrap64 (Line (cursor e) + dLine),
                      Col = wrap64 (Col (cursor e) + dCol)\<rparr>\<rparr>))"

definition MoveCursorTo :: "Editor \<Rightarrow> Position \<Rightarrow> Editor" where
  "MoveCursorTo e pos = followCursor (clampCursor (e\<lparr>cursor := pos\<rparr>))"

definition MoveToLineStart :: "Editor \<Rightarrow> Editor" where
  "MoveToLineStart e = followCursor (e\<lparr>cursor := (cursor e)\<lparr>Col := 0\<rparr>\<rparr>)"

definition MoveToLineEnd :: "Editor \<Rightarrow> Editor" where
  "MoveToLineEnd e =
     (let lineLen = len (GetLine (buffer e) (Line (cursor e)));
          col = (if mode e = ModeNormal \<and> lineLen > 0 then lineLen - 1 else lineLen)
      in followCursor (e\<lparr>cursor := (cursor e)\<lparr>Col := col\<rparr>\<rparr>))"

definition isAlphaNum :: "char \<Rightarrow> bool" where
  "isAlphaNum ch =
     ((ch \<ge> CHR ''a'' \<and> ch \<le> CHR ''z'') \<or> (ch \<ge> CHR ''A'' \<and> ch \<le> CHR ''Z'')
      \<or> (ch \<ge> CHR ''0'' \<and> ch \<le> CHR ''9'') \<or> ch = CHR ''_'')"

text \<open>The scanning loop of \<open>MoveWordForward\<close>; the result is the final \<open>col\<close>.\<close>

function scanWordForward :: "string \<Rightarrow> int \<Rightarrow> bool \<Rightarrow> panic + int" where
  "scanWordForward line col inWord =
     (if col < len line then
        andThen (index line col) (\<lambda>ch.
          if \<not> inWord \<and> isAlphaNum ch then scanWordForward line (col + 1) True
          else if inWord \<and> \<not> isAlphaNum ch then Inr col
          else scanWordForward line (col + 1) inWord)
      else Inr col)"
  by pat_completeness auto
termination
  by (relation "measure (\<lambda>(line, col, inWord). nat (len line - col))") auto

definition MoveWordForward :: "Editor \<Rightarrow> panic + Editor" where
  "MoveWordForward e =
     (let line = GetLine (buffer e) (Line (cursor e)) in
      andThen (scanWordForward line (Col (cursor e)) False) (\<lambda>col.
        let c = (if col = Col (cursor e) \<and> Line (cursor e) < LineCount (buffer e) - 1
                 then \<lparr>Line = Line (cursor e) + 1, Col = 0\<rparr>
                 else (cursor e)\<lparr>Col := col\<rparr>)
        in Inr (followCursor (clampCursor (e\<lparr>cursor := c\<rparr>)))))"

text \<open>The two loops of \<open>MoveWordBackward\<close>.\<close>

function skipSpacesBackward :: "string \<Rightarrow> int \<Rightarrow> panic + int" where
  "skipSpacesBackward line col =
     (if col > 0 then
        andThen (index line col) (\<lambda>ch.
          if ch = CHR '' '' then skipSpacesBackward line (col - 1) else Inr col)
      else Inr col)"
  by pat_completeness auto
termination
  by (relation "measure (\<lambda>(line, col). nat col)") auto

function scanWordBackward :: "string \<Rightarrow> int \<Rightarrow> panic + int" where
  "scanWordBackward line col =
     (if col > 0 then
        andThen (index line (col - 1)) (\<lambda>prev.
        andThen (index line col) (\<lambda>cur.
          if \<not> isAlphaNum prev \<and> isAlphaNum cur then Inr col
          else scanWordBackward line (col - 1)))
      else Inr col)"
  by pat_completeness auto
termination
  by (relation "measure (\<lambda>(line, col). nat col)") auto

definition MoveWordBackward :: "Editor \<Rightarrow> panic + Editor" where
  "MoveWordBackward e =
     andThen
       (if Col (cursor e) = 0 then
          (if Line (cursor e) > 0
           then Inr (e\<lparr>cursor := \<lparr>Line = Line (cursor e) - 1,
                                   Col = len (GetLine (buffer e) (Line (cursor e) - 1))\<rparr>\<rparr>)
           else Inr e)
        else
          (let line = GetLine (buffer e) (Line (cursor e)) in
           andThen (skipSpacesBackward line (Col (cursor e) - 1)) (\<lambda>col1.
           andThen (scanWordBackward line col1) (\<lambda>col.
             Inr (e\<lparr>cursor := (cursor e)\<lparr>Col := col\<rparr>\<rparr>)))))
       (\<lambda>e1. Inr (followCursor (clampCursor e1)))"

definition SelectLine :: "Editor \<Rightarrow> Editor" where
  "SelectLine e =
     (let lineLen = len (GetLine (buffer e) (Line (cursor e)));
          head = \<lparr>Line = Line (cursor e), Col = lineLen\<rparr>
      in e\<lparr>selection := \<lparr>Anchor = \<lparr>Line = Line (cursor e), Col = 0\<rparr>, Head = head\<rparr>,
           cursor := head\<rparr>)"

text \<open>The two loops of \<open>SelectWord\<close>.\<close>

function wordStart :: "string \<Rightarrow> int \<Rightarrow> panic + int" where
  "wordStart line start =
     (if start > 0 then
        andThen (index line (start - 1)) (\<lambda>ch.
          if isAlphaNum ch then wordStart line (start - 1) else Inr start)
      else Inr start)"
  by pat_completeness auto
termination
  by (relation "measure (\<lambda>(line, start). nat start)") auto

function wordEnd :: "string \<Rightarrow> int \<Rightarrow> panic + int" where
  "wordEnd line end =
     (if end < len line then
        andThen (index line end) (\<lambda>ch.
          if isAlphaNum ch then wordEnd line (end + 1) else Inr end)
      else Inr end)"
  by pat_completeness auto
termination
  by (relation "measure (\<lambda>(line, end). nat (len line - end))") auto

definition SelectWord :: "Editor \<Rightarrow> panic + Editor" where
  "SelectWord e =
     (let line = GetLine (buffer e) (Line (cursor e)) in
      if Col (cursor e) \<ge> len line then Inr e
      else andThen (index line (Col (cursor e))) (\<lambda>ch.
        if \<not> isAlphaNum ch then Inr e
        else andThen (wordStart line (Col (cursor e))) (\<lambda>start.
             andThen (wordEnd line (Col (cursor e))) (\<lambda>end.
               let head = \<lparr>Line = Line (cursor e), Col = end\<rparr> in
               Inr (e\<lparr>selection := \<lparr>Anchor = \<lparr>Line = Line (cursor e), Col = start\<rparr>,
                                       Head = head\<rparr>,
                      cursor := head\<rparr>)))))"

definition Editor_DeleteSelection :: "Editor \<Rightarrow> panic + Editor" where
  "Editor_DeleteSelection e =
     (if \<not> IsEmpty (selection e) then
        andThen (Buffer_DeleteSelection (buffer e) (selection e)) (\<lambda>(b, pos).
          Inr (clampCursor (e\<lparr>buffer := b, cursor := pos, selection := NewSelection pos\<rparr>)))
      else Inr e)"

definition YankSelection :: "Editor \<Rightarrow> panic + Editor" where
  "YankSelection e =
     (if \<not> IsEmpty (selection e) then
        andThen (GetSelectedText (buffer e) (selection e)) (\<lambda>t. Inr (e\<lparr>clipboard := t\<rparr>))
      else Inr e)"

text \<open>\<open>for _, ch := range s { e.cursor = e.buffer.InsertChar(e.cursor, ch) }\<close>\<close>

fun insertRunes :: "rune list \<Rightarrow> Buffer \<Rightarrow> Position \<Rightarrow> panic + Buffer \<times> Position" where
  "insertRunes [] b pos = Inr (b, pos)"
| "insertRunes (ch # chs) b pos =
     andThen (Buffer_InsertChar b pos ch) (\<lambda>(b1, pos1). insertRunes chs b1 pos1)"

text \<open>The loop over the clipboard's lines; a newline follows every line but the last.\<close>

fun pasteLines :: "string list \<Rightarrow> Buffer \<Rightarrow> Position \<Rightarrow> panic + Buffer \<times> Position" where
  "pasteLines [] b pos = Inr (b, pos)"
| "pasteLines (line # rest) b pos =
     andThen (insertRunes (runes line) b pos) (\<lambda>(b1, pos1).
       if rest \<noteq> [] then
         andThen (Buffer_InsertNewline b1 pos1) (\<lambda>(b2, pos2). pasteLines rest b2 pos2)
       else pasteLines rest b1 pos1)"

definition Paste :: "Editor \<Rightarrow> panic + Editor" where
  "Paste e =
     (if clipboard e = [] then Inr e
      else let ls = Split_LF (clipboard e) in
        andThen (if length ls = 1 then insertRunes (runes (clipboard e)) (buffer e) (cursor e)
                 else pasteLines ls (buffer e) (cursor e))
          (\<lambda>(b, pos). Inr (e\<lparr>buffer := b, cursor := pos, selection := NewSelection pos\<rparr>)))"

definition Editor_InsertChar :: "Editor \<Rightarrow> rune \<Rightarrow> panic + Editor" where
  "Editor_InsertChar e ch =
     andThen (Buffer_InsertChar (buffer e) (cursor e) ch) (\<lambda>(b, pos).
       Inr (e\<lparr>buffer := b, cursor := pos, selection := NewSelection pos\<rparr>))"

definition Editor_InsertNewline :: "Editor \<Rightarrow> panic + Editor" where
  "Editor_InsertNewline e =
     andThen (Buffer_InsertNewline (buffer e) (cursor e)) (\<lambda>(b, pos).
       Inr (e\<lparr>buffer := b, cursor := pos, selection := NewSelection pos\<rparr>))"

definition Backspace :: "Editor \<Rightarrow> panic + Editor" where
  "Backspace e =
     andThen (Buffer_DeleteChar (buffer e) (cursor e)) (\<lambda>(b, pos).
       Inr (clampCursor (e\<lparr>buffer := b, cursor := pos, selection := NewSelection pos\<rparr>)))"

definition AppendCommand :: "Editor \<Rightarrow> rune \<Rightarrow> Editor" where
  "AppendCommand e ch = e\<lparr>command := command e @ string_of_rune ch\<rparr>"

definition BackspaceCommand :: "Editor \<Rightarrow> Editor" where
  "BackspaceCommand e =
     (if length (command e) > 0 then e\<lparr>command := take (length (command e) - 1) (command e)\<rparr>
      else e)"

definition ClearCommand :: "Editor \<Rightarrow> Editor" where
  "ClearCommand e = e\<lparr>command := []\<rparr>"

text \<open>
  \<open>ExecuteCommand\<close>: the editor afterwards, the write requested of the file system (if
  any) and the returned quit flag.
\<close>

definition ExecuteCommand :: "bool \<Rightarrow> Editor \<Rightarrow> Editor \<times> (string \<times> string) option \<times> bool" where
  "ExecuteCommand write_ok e =
     (let cmd = TrimSpace (command e);
          e1 = e\<lparr>command := []\<rparr>
      in if cmd = ''w'' then
           (case Editor_SaveFile write_ok e1 of (e2, w, err) \<Rightarrow> (e2, w, False))
         else if cmd = ''q'' then
           (if \<not> IsDirty (buffer e1) then (e1, None, True) else (e1, None, False))
         else if cmd = ''q!'' then (e1, None, True)
         else if cmd = ''wq'' then
           (case Editor_SaveFile write_ok e1 of (e2, w, err) \<Rightarrow> (e2, w, True))
         else (e1, None, False))"

subsection \<open>The command methods as one step function\<close>

text \<open>
  The command methods of \<open>Editor\<close> that the key dispatcher (main.go) calls during a
  session, with their arguments; \<open>LoadFile\<close> is called once, before the first key.
\<close>

datatype Command =
    CmdSetMode Mode
  | CmdMoveCursor int int
  | CmdMoveCursorTo Position
  | CmdMoveToLineStart
  | CmdMoveToLineEnd
  | CmdMoveWordForward
  | CmdMoveWordBackward
  | CmdSelectLine
  | CmdSelectWord
  | CmdDeleteSelection
  | CmdYankSelection
  | CmdPaste
  | CmdInsertChar rune
  | CmdInsertNewline
  | CmdBackspace
  | CmdAppendCommand rune
  | CmdBackspaceCommand
  | CmdClearCommand
  | CmdExecuteCommand bool
  | CmdSaveFile bool

fun run :: "Command \<Rightarrow> Editor \<Rightarrow> panic + Editor" where
  "run (CmdSetMode m) e = Inr (SetMode e m)"
| "run (CmdMoveCursor dLine dCol) e = Inr (MoveCursor e dLine dCol)"
| "run (CmdMoveCursorTo pos) e = Inr (MoveCursorTo e pos)"
| "run CmdMoveToLineStart e = Inr (MoveToLineStart e)"
| "run CmdMoveToLineEnd e = Inr (MoveToLineEnd e)"
| "run CmdMoveWordForward e = MoveWordForward e"
| "run CmdMoveWordBackward e = MoveWordBackward e"
| "run CmdSelectLine e = Inr (SelectLine e)"
| "run CmdSelectWord e = SelectWord e"
| "run CmdDeleteSelection e = Editor_DeleteSelection e"
| "run CmdYankSelection e = YankSelection e"
| "run CmdPaste e = Paste e"
| "run (CmdInsertChar ch) e = Editor_InsertChar e ch"
| "run CmdInsertNewline e = Editor_InsertNewline e"
| "run CmdBackspace e = Backspace e"
| "run (CmdAppendCommand ch) e = Inr (AppendCommand e ch)"
| "run CmdBackspaceCommand e = Inr (BackspaceCommand e)"
| "run CmdClearCommand e = Inr (ClearCommand e)"
| "run (CmdExecuteCommand write_ok) e = Inr (fst (ExecuteCommand write_ok e))"
| "run (CmdSaveFile write_ok) e = Inr (fst (Editor_SaveFile write_ok e))"

text \<open>
  The states a session can reach: a new editor, a new editor with a file loaded into it,
  and every state a command method returns from a reachable one.
\<close>

inductive reachable :: "Editor \<Rightarrow> bool" where
  reachable_New: "reachable New"
| reachable_LoadFile: "reachable (fst (Editor_LoadFile New name r))"
| reachable_run: "reachable e \<Longrightarrow> run c e = Inr e' \<Longrightarrow> reachable e'"

subsection \<open>Positions that lie inside the buffer\<close>

text \<open>
  A position is inside the buffer when its line exists and its column is between 0 and
  the length of that line (one past the last character included).
\<close>

definition inBuffer :: "Buffer \<Rightarrow> Position \<Rightarrow> bool" where
  "inBuffer b p =
     (0 \<le> Line p \<and> Line p < LineCount b \<and> 0 \<le> Col p \<and> Col p \<le> len (GetLine b (Line p)))"

subsection \<open>Invariants of the editor\<close>

text \<open>
  An editor state is consistent when the cursor and both ends of the selection lie inside
  the buffer. \<open>cursorClamped\<close> is the bound that \<open>clampCursor\<close> establishes: the line
  exists, and the column is at most \<open>max(lineLength - 1, 0)\<close> in Normal mode and at most
  \<open>lineLength\<close> in every other mode.
\<close>

definition consistent :: "Editor \<Rightarrow> bool" where
  "consistent e =
     (inBuffer (buffer e) (cursor e) \<and> inBuffer (buffer e) (Anchor (selection e))
      \<and> inBuffer (buffer e) (Head (selection e)))"

definition cursorClamped :: "Editor \<Rightarrow> bool" where
  "cursorClamped e =
     (let lineLength = len (GetLine (buffer e) (Line (cursor e))) in
      0 \<le> Line (cursor e) \<and> Line (cursor e) < LineCount (buffer e) \<and> 0 \<le> Col (cursor e)
      \<and> (if mode e = ModeNormal then Col (cursor e) \<le> max (lineLength - 1) 0
          else Col (cursor e) \<le> lineLength))"

text \<open>
  The commands that end by \<open>clampCursor\<close> or set a column that is inside the bound
  in every mode (\<open>DeleteSelection\<close> does so only when the selection is not empty), and
  the commands that leave the cursor, the mode and the lines as they are.
\<close>

fun clamps :: "Command \<Rightarrow> Editor \<Rightarrow> bool" where
  "clamps (CmdMoveCursor dLine dCol) e = True"
| "clamps (CmdMoveCursorTo pos) e = True"
| "clamps CmdMoveToLineStart e = True"
| "clamps CmdMoveToLineEnd e = True"
| "clamps CmdMoveWordForward e = True"
| "clamps CmdMoveWordBackward e = True"
| "clamps CmdInsertNewline e = True"
| "clamps CmdBackspace e = True"
| "clamps CmdDeleteSelection e = (\<not> IsEmpty (selection e))"
| "clamps c e = False"

fun leavesCursor :: "Command \<Rightarrow> Editor \<Rightarrow> bool" where
  "leavesCursor CmdYankSelection e = True"
| "leavesCursor (CmdAppendCommand ch) e = True"
| "leavesCursor CmdBackspaceCommand e = True"
| "leavesCursor CmdClearCommand e = True"
| "leavesCursor (CmdExecuteCommand write_ok) e = True"
| "leavesCursor (CmdSaveFile write_ok) e = True"
| "leavesCursor CmdDeleteSelection e = IsEmpty (selection e)"
| "leavesCursor c e = False"

subsection \<open>Two sessions used as examples\<close>

text \<open>
  An editor started on a file holding \<open>abc\<close>, and one started on a file holding the
  two lines \<open>ab\<close> and \<open>cd\<close>; both are in Normal mode with the cursor at the origin.
\<close>

definition editor_abc :: Editor where
  "editor_abc = fst (Editor_LoadFile New ''f'' (ReadOk ''abc''))"


subsection \<open>The word motion as the specification words it\<close>

text \<open>
  The column \<open>MoveWordForward\<close> scans to, following the specification rather than the
  loop: from the cursor column, pass the leading run of non-word characters, then the
  run of word characters after it; the scan stops there, at the first non-word character
  after the word or at the end of the line.
\<close>

definition wordForwardTarget :: "string \<Rightarrow> int \<Rightarrow> int" where
  "wordForwardTarget line col =
     (let rest = drop (nat col) line;
          gap = takeWhile (\<lambda>ch. \<not> isAlphaNum ch) rest;
          word = takeWhile isAlphaNum (dropWhile (\<lambda>ch. \<not> isAlphaNum ch) rest)
      in col + len gap + len word)"

section \<open>Properties\<close>

subsection \<open>The primitives inside their bounds\<close>

lemma andThen_Inr [simp]: "andThen (Inr x) f = f x"
  by (simp add: andThen_def)

lemma andThen_Inl [simp]: "andThen (Inl e) f = Inl e"
  by (simp add: andThen_def)

lemma index_in_range: "0 \<le> i \<Longrightarrow> i < len xs \<Longrightarrow> index xs i = Inr (xs ! nat i)"
  by (simp add: index_def)

lemma slice_to_in_range: "0 \<le> hi \<Longrightarrow> hi \<le> len xs \<Longrightarrow> slice_to xs hi = Inr (take (nat hi) xs)"
  by (simp add: slice_to_def slice_def)

lemma slice_from_in_range: "0 \<le> lo \<Longrightarrow> lo \<le> len xs \<Longrightarrow> slice_from xs lo = Inr (drop (nat lo) xs)"
  by (simp add: slice_from_def slice_def len_def)

lemma slice_in_range:
  "0 \<le> lo \<Longrightarrow> lo \<le> hi \<Longrightarrow> hi \<le> len xs \<Longrightarrow>
   slice xs lo hi = Inr (take (nat hi - nat lo) (drop (nat lo) xs))"
  by (simp add: slice_def)

subsection \<open>The UTF-8 decoders consume at least one byte\<close>

text \<open>
  So \<open>drop (wid - 1)\<close> after the head byte in \<open>runes\<close> and \<open>TrimLeftFunc\<close> is
  \<open>s[wid:]\<close>, and the \<open>max 1 wid\<close> of \<open>lastIndexFunc\<close> is \<open>wid\<close>.
\<close>

lemma one_le_length_iff: "Suc 0 \<le> length xs \<longleftrightarrow> xs \<noteq> []"
  by (cases xs) simp_all

lemma DecodeRune_width:
  assumes "DecodeRune (c # cs) = (r, wid)"
  shows "1 \<le> wid \<and> wid \<le> Suc (length cs)"
  using assms
  by (auto simp: DecodeRune_def Let_def first_byte_def one_le_length_iff
      split: if_splits option.splits)

lemma lastRuneSpan_bounds: "s \<noteq> [] \<Longrightarrow> 1 \<le> lastRuneSpan s \<and> lastRuneSpan s \<le> length s"
  by (cases s) (auto simp: lastRuneSpan_def Let_def)

lemma DecodeLastRune_width:
  assumes "p \<noteq> []" and "DecodeLastRune p = (r, wid)"
  shows "1 \<le> wid \<and> wid \<le> length p"
proof -
  have "1 \<le> length p"
    using assms(1) by (cases p) simp_all
  then show ?thesis
    using assms lastRuneSpan_bounds [OF assms(1)]
    by (auto simp: DecodeLastRune_def Let_def split: if_splits prod.splits)
qed

lemma lastIndexFunc_step:
  assumes "p \<noteq> []" and "DecodeLastRune p = (r, wid)" and "IsSpace r"
  shows "lastIndexFunc p = lastIndexFunc (take (length p - wid) p)"
proof -
  have m: "max 1 wid = wid"
    using DecodeLastRune_width [OF assms(1,2)] by simp
  have "lastIndexFunc p = lastIndexFunc (take (length p - max 1 wid) p)"
    using assms by (subst lastIndexFunc.simps) (simp del: lastIndexFunc.simps)
  then show ?thesis
    by (simp only: m)
qed

subsection \<open>Buffer.DeleteChar\<close>

lemma DeleteChar_branches:
  assumes "0 \<le> Line pos" and "Line pos < LineCount b"
  shows "(0 < Col pos \<and> Col pos \<le> len (GetLine b (Line pos)) \<longrightarrow>
            Buffer_DeleteChar b pos =
              Inr (b\<lparr>lines := (lines b)[nat (Line pos) :=
                        take (nat (Col pos) - 1) (GetLine b (Line pos))
                        @ drop (nat (Col pos)) (GetLine b (Line pos))],
                     dirty := True\<rparr>,
                   \<lparr>Line = Line pos, Col = Col pos - 1\<rparr>))
       \<and> (Col pos = 0 \<and> 0 < Line pos \<longrightarrow>
            Buffer_DeleteChar b pos =
              Inr (b\<lparr>lines := take (nat (Line pos) - 1) (lines b)
                        @ [GetLine b (Line pos - 1) @ GetLine b (Line pos)]
                        @ drop (nat (Line pos) + 1) (lines b),
                     dirty := True\<rparr>,
                   \<lparr>Line = Line pos - 1, Col = len (GetLine b (Line pos - 1))\<rparr>))
       \<and> (Col pos = 0 \<and> Line pos = 0 \<longrightarrow> Buffer_DeleteChar b pos = Inr (b, pos))
       \<and> (Col pos < 0 \<or> len (GetLine b (Line pos)) < Col pos \<longrightarrow>
            Buffer_DeleteChar b pos = Inr (b, pos))"
proof -
  let ?n = "nat (Line pos)"
  let ?line = "lines b ! ?n"
  have n: "?n < length (lines b)"
    using assms by (simp add: LineCount_def len_def)
  have gl: "GetLine b (Line pos) = ?line"
    using assms by (simp add: GetLine_def LineCount_def)
  have ix: "index (lines b) (Line pos) = Inr ?line"
    using assms by (simp add: index_in_range LineCount_def)
  have notge: "\<not> Line pos \<ge> len (lines b)"
    using assms by (simp add: LineCount_def)
  have c1: "Buffer_DeleteChar b pos =
              Inr (b\<lparr>lines := (lines b)[?n := take (nat (Col pos) - 1) ?line @ drop (nat (Col pos)) ?line],
                     dirty := True\<rparr>,
                   \<lparr>Line = Line pos, Col = Col pos - 1\<rparr>)"
    if "0 < Col pos" "Col pos \<le> len ?line"
    using that notge ix
    by (simp add: Buffer_DeleteChar_def slice_to_in_range slice_from_in_range nat_diff_distrib)
  have c2: "Buffer_DeleteChar b pos =
              Inr (b\<lparr>lines := take (?n - 1) (lines b)
                        @ [GetLine b (Line pos - 1) @ ?line] @ drop (?n + 1) (lines b),
                     dirty := True\<rparr>,
                   \<lparr>Line = Line pos - 1, Col = len (GetLine b (Line pos - 1))\<rparr>)"
    if "Col pos = 0" "0 < Line pos"
  proof -
    have p: "nat (Line pos - 1) = ?n - 1" "?n - 1 < length (lines b)" "0 < ?n"
      using that n by (simp_all add: nat_diff_distrib)
    have gp: "GetLine b (Line pos - 1) = lines b ! (?n - 1)"
      using that assms p by (simp add: GetLine_def LineCount_def len_def)
    have ixp: "index (lines b) (Line pos - 1) = Inr (lines b ! (?n - 1))"
      using that assms p by (simp add: index_in_range LineCount_def len_def)
    have st: "slice_to ((lines b)[?n - 1 := lines b ! (?n - 1) @ ?line]) (Line pos)
                = Inr (take (?n - 1) (lines b) @ [lines b ! (?n - 1) @ ?line])"
    proof -
      have "take ?n ((lines b)[?n - 1 := lines b ! (?n - 1) @ ?line])
              = take (?n - 1) (lines b) @ [lines b ! (?n - 1) @ ?line]"
        using p n
        by (metis Suc_pred' length_list_update nth_list_update_eq take_Suc_conv_app_nth
            take_update_cancel order_refl)
      then show ?thesis
        using assms by (simp add: slice_to_in_range LineCount_def len_def)
    qed
    have sf: "slice_from ((lines b)[?n - 1 := lines b ! (?n - 1) @ ?line]) (Line pos + 1)
                = Inr (drop (?n + 1) (lines b))"
      using assms p by (simp add: slice_from_in_range LineCount_def len_def nat_add_distrib)
    show ?thesis
      using that notge ix ixp st sf gp p
      by (simp add: Buffer_DeleteChar_def)
  qed
  have c3: "Buffer_DeleteChar b pos = Inr (b, pos)" if "Col pos = 0" "Line pos = 0"
    using that notge ix by (simp add: Buffer_DeleteChar_def)
  have c4: "Buffer_DeleteChar b pos = Inr (b, pos)" if "Col pos < 0 \<or> len ?line < Col pos"
    using that notge ix by (auto simp add: Buffer_DeleteChar_def len_def)
  show ?thesis
    using c1 c2 c3 c4 gl by simp
qed

text \<open>
  C8 (as amended): for a position whose line is in range, \<open>DeleteChar\<close> with
  \<open>0 < col \<le> len(line)\<close> removes the character before the column and returns
  \<open>{line, col-1}\<close>; with \<open>col = 0\<close> and \<open>line > 0\<close> it appends the line to the
  previous one, removes it, and returns \<open>{line-1, len(previous line)}\<close>; at
  \<open>{0, 0}\<close>, and for a column that is negative or past the end of the line, it changes
  nothing and returns the position as it was.
\<close>

theorem DeleteChar_cases:
  assumes "0 \<le> Line pos" and "Line pos < LineCount b"
  shows "(0 < Col pos \<and> Col pos \<le> len (GetLine b (Line pos)) \<longrightarrow>
            Buffer_DeleteChar b pos =
              Inr (b\<lparr>lines := (lines b)[nat (Line pos) :=
                        take (nat (Col pos) - 1) (GetLine b (Line pos))
                        @ drop (nat (Col pos)) (GetLine b (Line pos))],
                     dirty := True\<rparr>,
                   \<lparr>Line = Line pos, Col = Col pos - 1\<rparr>))
       \<and> (Col pos = 0 \<and> 0 < Line pos \<longrightarrow>
            Buffer_DeleteChar b pos =
              Inr (b\<lparr>lines := take (nat (Line pos) - 1) (lines b)
                        @ [GetLine b (Line pos - 1) @ GetLine b (Line pos)]
                        @ drop (nat (Line pos) + 1) (lines b),
                     dirty := True\<rparr>,
                   \<lparr>Line = Line pos - 1, Col = len (GetLine b (Line pos - 1))\<rparr>))
       \<and> (Col pos = 0 \<and> Line pos = 0 \<longrightarrow> Buffer_DeleteChar b pos = Inr (b, pos))
       \<and> (Col pos < 0 \<or> len (GetLine b (Line pos)) < Col pos \<longrightarrow>
            Buffer_DeleteChar b pos = Inr (b, pos))"
  using assms by (rule DeleteChar_branches)

text \<open>
  The theorem at work on the buffer \<open>["ab", "cd"]\<close>: a backspace at \<open>{1, 0}\<close> joins the
  two lines, and one at \<open>{1, 2}\<close> removes the \<open>d\<close>.
\<close>

theorem DeleteChar_cases_witness:
  "Buffer_DeleteChar \<lparr>lines = [''ab'', ''cd''], filename = [], dirty = False\<rparr>
     \<lparr>Line = 1, Col = 0\<rparr>
     = Inr (\<lparr>lines = [''abcd''], filename = [], dirty = True\<rparr>, \<lparr>Line = 0, Col = 2\<rparr>)
   \<and> Buffer_DeleteChar \<lparr>lines = [''ab'', ''cd''], filename = [], dirty = False\<rparr>
        \<lparr>Line = 1, Col = 2\<rparr>
     = Inr (\<lparr>lines = [''ab'', ''c''], filename = [], dirty = True\<rparr>, \<lparr>Line = 1, Col = 1\<rparr>)"
  using DeleteChar_cases [of "\<lparr>Line = 1, Col = 0\<rparr>"
                             "\<lparr>lines = [''ab'', ''cd''], filename = [], dirty = False\<rparr>"]
        DeleteChar_cases [of "\<lparr>Line = 1, Col = 2\<rparr>"
                             "\<lparr>lines = [''ab'', ''cd''], filename = [], dirty = False\<rparr>"]
  by (simp add: LineCount_def len_def GetLine_def)

text \<open>
  The claim as it was stated fails for a column past the end of the line: on \<open>["ab"]\<close>
  at \<open>{0, 5}\<close> the line is in range and \<open>col > 0\<close>, yet nothing is removed and the
  position returned is \<open>{0, 5}\<close>, not \<open>{0, 4}\<close>.
\<close>

theorem DeleteChar_past_end_counterexample:
  "0 \<le> Line \<lparr>Line = 0, Col = 5\<rparr>
   \<and> Line \<lparr>Line = 0, Col = 5\<rparr> < LineCount \<lparr>lines = [''ab''], filename = [], dirty = False\<rparr>
   \<and> 0 < Col \<lparr>Line = 0, Col = 5\<rparr>
   \<and> Buffer_DeleteChar \<lparr>lines = [''ab''], filename = [], dirty = False\<rparr> \<lparr>Line = 0, Col = 5\<rparr>
       = Inr (\<lparr>lines = [''ab''], filename = [], dirty = False\<rparr>, \<lparr>Line = 0, Col = 5\<rparr>)
   \<and> \<lparr>Line = 0, Col = 5\<rparr> \<noteq> \<lparr>Line = 0, Col = 5 - 1\<rparr>"
  by (simp add: Buffer_DeleteChar_def LineCount_def len_def index_def)

subsection \<open>Buffer.DeleteSelection\<close>

lemma inBuffer_line:
  assumes "inBuffer b p"
  shows "nat (Line p) < length (lines b)"
    and "GetLine b (Line p) = lines b ! nat (Line p)"
    and "index (lines b) (Line p) = Inr (lines b ! nat (Line p))"
    and "0 \<le> Line p" and "Line p < len (lines b)"
    and "0 \<le> Col p" and "Col p \<le> len (lines b ! nat (Line p))"
    and "nat (Col p) \<le> length (lines b ! nat (Line p))"
proof -
  show a: "0 \<le> Line p" and b: "Line p < len (lines b)" and "0 \<le> Col p"
    using assms by (simp_all add: inBuffer_def LineCount_def)
  show "nat (Line p) < length (lines b)"
    using a b by (simp add: len_def)
  show g: "GetLine b (Line p) = lines b ! nat (Line p)"
    using a b by (simp add: GetLine_def)
  show "index (lines b) (Line p) = Inr (lines b ! nat (Line p))"
    using a b by (simp add: index_in_range)
  show c: "Col p \<le> len (lines b ! nat (Line p))"
    using assms g by (simp add: inBuffer_def)
  show "nat (Col p) \<le> length (lines b ! nat (Line p))"
    using c by (simp add: len_def)
qed

lemma take_Suc_update:
  "n < length xs \<Longrightarrow> take (Suc n) (xs[n := v]) = take n xs @ [v]"
  by (simp add: take_Suc_conv_app_nth)

lemma DeleteSelection_same_line:
  assumes s: "inBuffer b (Start sel)" and e: "inBuffer b (End sel)"
    and eq: "Line (Start sel) = Line (End sel)"
  shows "Buffer_DeleteSelection b sel =
           Inr (b\<lparr>lines := (lines b)[nat (Line (Start sel)) :=
                     take (nat (Col (Start sel))) (GetLine b (Line (Start sel)))
                     @ drop (nat (Col (End sel))) (GetLine b (Line (Start sel)))],
                  dirty := True\<rparr>, Start sel)"
proof -
  let ?l = "lines b ! nat (Line (Start sel))"
  have l: "lines b ! nat (Line (End sel)) = ?l"
    using eq by simp
  have 1: "index (lines b) (Line (Start sel)) = Inr ?l"
    by (rule inBuffer_line(3) [OF s])
  have 2: "slice_to ?l (Col (Start sel)) = Inr (take (nat (Col (Start sel))) ?l)"
    by (rule slice_to_in_range [OF inBuffer_line(6) [OF s] inBuffer_line(7) [OF s]])
  have 3: "slice_from ?l (Col (End sel)) = Inr (drop (nat (Col (End sel))) ?l)"
    using slice_from_in_range [OF inBuffer_line(6) [OF e] inBuffer_line(7) [OF e]] l by simp
  have "Buffer_DeleteSelection b sel =
          andThen (index (lines b) (Line (Start sel))) (\<lambda>line.
          andThen (slice_to line (Col (Start sel))) (\<lambda>before.
          andThen (slice_from line (Col (End sel))) (\<lambda>after.
            Inr (b\<lparr>lines := (lines b)[nat (Line (Start sel)) := before @ after], dirty := True\<rparr>,
                 Start sel))))"
    unfolding Buffer_DeleteSelection_def Let_def using eq by (rule if_P)
  then show ?thesis
    by (simp add: 1 2 3 inBuffer_line(2) [OF s])
qed

lemma DeleteSelection_multi_line:
  assumes s: "inBuffer b (Start sel)" and e: "inBuffer b (End sel)"
    and lt: "Line (Start sel) < Line (End sel)"
  shows "Buffer_DeleteSelection b sel =
           Inr (b\<lparr>lines := take (nat (Line (Start sel))) (lines b)
                     @ [take (nat (Col (Start sel))) (GetLine b (Line (Start sel)))
                        @ drop (nat (Col (End sel))) (GetLine b (Line (End sel)))]
                     @ drop (nat (Line (End sel)) + 1) (lines b),
                  dirty := True\<rparr>, Start sel)"
proof -
  let ?s = "nat (Line (Start sel))" and ?e = "nat (Line (End sel))"
  let ?l1 = "lines b ! ?s" and ?l2 = "lines b ! ?e"
  let ?j = "take (nat (Col (Start sel))) ?l1 @ drop (nat (Col (End sel))) ?l2"
  let ?ls = "(lines b)[?s := ?j]"
  have n: "?s < length (lines b)" "?e < length (lines b)"
    by (rule inBuffer_line(1) [OF s], rule inBuffer_line(1) [OF e])
  have se: "?s < ?e"
    using lt inBuffer_line(4) [OF s] by simp
  have 1: "index (lines b) (Line (Start sel)) = Inr ?l1"
    by (rule inBuffer_line(3) [OF s])
  have 2: "slice_to ?l1 (Col (Start sel)) = Inr (take (nat (Col (Start sel))) ?l1)"
    by (rule slice_to_in_range [OF inBuffer_line(6) [OF s] inBuffer_line(7) [OF s]])
  have 3: "index (lines b) (Line (End sel)) = Inr ?l2"
    by (rule inBuffer_line(3) [OF e])
  have 4: "slice_from ?l2 (Col (End sel)) = Inr (drop (nat (Col (End sel))) ?l2)"
    by (rule slice_from_in_range [OF inBuffer_line(6) [OF e] inBuffer_line(7) [OF e]])
  have 5: "slice_to ?ls (Line (Start sel) + 1) = Inr (take ?s (lines b) @ [?j])"
  proof -
    have "nat (Line (Start sel) + 1) = Suc ?s"
      using inBuffer_line(4) [OF s] by simp
    moreover have "Line (Start sel) + 1 \<le> len ?ls"
      using inBuffer_line(5) [OF s] by (simp add: len_def)
    ultimately show ?thesis
      using inBuffer_line(4) [OF s] n by (simp add: slice_to_in_range take_Suc_update)
  qed
  have 6: "slice_from ?ls (Line (End sel) + 1) = Inr (drop (?e + 1) (lines b))"
  proof -
    have "nat (Line (End sel) + 1) = Suc ?e"
      using inBuffer_line(4) [OF e] by simp
    moreover have "Line (End sel) + 1 \<le> len ?ls"
      using inBuffer_line(5) [OF e] by (simp add: len_def)
    moreover have "drop (Suc ?e) ?ls = drop (Suc ?e) (lines b)"
      by (rule drop_update_cancel) (use se in linarith)
    ultimately show ?thesis
      using inBuffer_line(4) [OF e] by (simp add: slice_from_in_range)
  qed
  have 7: "drop (?e + 1) (lines b) = []" if "\<not> Line (End sel) + 1 < len ?ls"
    using that inBuffer_line(4) [OF e] by (simp add: len_def)
  have ne: "Line (Start sel) \<noteq> Line (End sel)"
    using lt by simp
  have "Buffer_DeleteSelection b sel =
          (if Line (End sel) + 1 < len ?ls then
             andThen (slice_to ?ls (Line (Start sel) + 1)) (\<lambda>upto.
             andThen (slice_from ?ls (Line (End sel) + 1)) (\<lambda>rest.
               Inr (b\<lparr>lines := upto @ rest, dirty := True\<rparr>, Start sel)))
           else
             andThen (slice_to ?ls (Line (Start sel) + 1)) (\<lambda>upto.
               Inr (b\<lparr>lines := upto, dirty := True\<rparr>, Start sel)))"
    unfolding Buffer_DeleteSelection_def Let_def by (simp add: ne 1 2 3 4)
  then show ?thesis
    using 7 by (simp add: 5 6 inBuffer_line(2) [OF s] inBuffer_line(2) [OF e])
qed

lemma Start_le_End: "Line (Start sel) \<le> Line (End sel)"
  by (simp add: Start_def End_def)

text \<open>
  C5: for a selection whose normalized endpoints lie inside the buffer,
  \<open>Buffer.DeleteSelection\<close> removes exactly the range from \<open>Start()\<close> up to
  \<open>End()\<close>: on one line it splices out the columns \<open>[start.col, end.col)\<close>; over
  several lines the start line becomes its prefix before \<open>start.col\<close> followed by the
  end line's suffix from \<open>end.col\<close>, and the lines \<open>start+1 .. end\<close> are removed.
  The buffer is marked dirty and \<open>Start()\<close> is returned. The witness below is the
  scenario \<open>["ab", "cd"]\<close>, selection \<open>{0,1}\<close>-\<open>{1,1}\<close>, giving \<open>["ad"]\<close> and
  \<open>{0, 1}\<close>.
\<close>

theorem DeleteSelection_removes_range:
  assumes "inBuffer b (Start sel)" and "inBuffer b (End sel)"
  shows "Buffer_DeleteSelection b sel =
           Inr (b\<lparr>lines :=
                    (if Line (Start sel) = Line (End sel)
                     then (lines b)[nat (Line (Start sel)) :=
                            take (nat (Col (Start sel))) (GetLine b (Line (Start sel)))
                            @ drop (nat (Col (End sel))) (GetLine b (Line (Start sel)))]
                     else take (nat (Line (Start sel))) (lines b)
                          @ [take (nat (Col (Start sel))) (GetLine b (Line (Start sel)))
                             @ drop (nat (Col (End sel))) (GetLine b (Line (End sel)))]
                          @ drop (nat (Line (End sel)) + 1) (lines b)),
                  dirty := True\<rparr>, Start sel)"
proof (cases "Line (Start sel) = Line (End sel)")
  case True
  then show ?thesis
    using DeleteSelection_same_line [OF assms True] by simp
next
  case False
  then have "Line (Start sel) < Line (End sel)"
    using Start_le_End [of sel] by simp
  then show ?thesis
    using DeleteSelection_multi_line [OF assms] False by simp
qed

theorem DeleteSelection_removes_range_witness:
  "inBuffer \<lparr>lines = [''ab'', ''cd''], filename = [], dirty = False\<rparr>
     (Start \<lparr>Anchor = \<lparr>Line = 0, Col = 1\<rparr>, Head = \<lparr>Line = 1, Col = 1\<rparr>\<rparr>)
   \<and> inBuffer \<lparr>lines = [''ab'', ''cd''], filename = [], dirty = False\<rparr>
     (End \<lparr>Anchor = \<lparr>Line = 0, Col = 1\<rparr>, Head = \<lparr>Line = 1, Col = 1\<rparr>\<rparr>)
   \<and> Buffer_DeleteSelection \<lparr>lines = [''ab'', ''cd''], filename = [], dirty = False\<rparr>
       \<lparr>Anchor = \<lparr>Line = 0, Col = 1\<rparr>, Head = \<lparr>Line = 1, Col = 1\<rparr>\<rparr>
     = Inr (\<lparr>lines = [''ad''], filename = [], dirty = True\<rparr>, \<lparr>Line = 0, Col = 1\<rparr>)
   \<and> Buffer_DeleteSelection \<lparr>lines = [''abcd''], filename = [], dirty = False\<rparr>
       \<lparr>Anchor = \<lparr>Line = 0, Col = 3\<rparr>, Head = \<lparr>Line = 0, Col = 1\<rparr>\<rparr>
     = Inr (\<lparr>lines = [''ad''], filename = [], dirty = True\<rparr>, \<lparr>Line = 0, Col = 1\<rparr>)"
  using DeleteSelection_removes_range
          [of "\<lparr>lines = [''ab'', ''cd''], filename = [], dirty = False\<rparr>"
              "\<lparr>Anchor = \<lparr>Line = 0, Col = 1\<rparr>, Head = \<lparr>Line = 1, Col = 1\<rparr>\<rparr>"]
        DeleteSelection_removes_range
          [of "\<lparr>lines = [''abcd''], filename = [], dirty = False\<rparr>"
              "\<lparr>Anchor = \<lparr>Line = 0, Col = 3\<rparr>, Head = \<lparr>Line = 0, Col = 1\<rparr>\<rparr>"]
  by (simp add: inBuffer_def Start_def End_def LineCount_def len_def GetLine_def)

subsection \<open>The line sequence is never empty\<close>

lemma Split_from_nonempty: "Split_from cur s \<noteq> []"
  by (induction s arbitrary: cur) auto

lemma slice_Inr_D: "slice xs lo hi = Inr ys \<Longrightarrow> ys = take (nat hi - nat lo) (drop (nat lo) xs) \<and> 0 \<le> lo \<and> lo \<le> hi \<and> hi \<le> len xs"
  by (auto simp: slice_def split: if_splits)

lemma index_Inr_D: "index xs i = Inr x \<Longrightarrow> x = xs ! nat i \<and> 0 \<le> i \<and> i < len xs"
  by (auto simp: index_def split: if_splits)

lemma andThen_Inr_D: "andThen m f = Inr y \<Longrightarrow> \<exists>x. m = Inr x \<and> f x = Inr y"
  by (cases m) simp_all

lemma InsertChar_keeps_length:
  assumes "Buffer_InsertChar b pos ch = Inr (b', p)"
  shows "length (lines b') = length (lines b)"
  using assms
  by (auto simp: Buffer_InsertChar_def Let_def split: if_splits dest!: andThen_Inr_D)

lemma InsertNewline_nonempty:
  assumes "Buffer_InsertNewline b pos = Inr (b', p)" and "lines b \<noteq> []"
  shows "lines b' \<noteq> []"
  using assms
  by (auto simp: Buffer_InsertNewline_def Let_def split: if_splits dest!: andThen_Inr_D)

lemma DeleteChar_nonempty:
  assumes "Buffer_DeleteChar b pos = Inr (b', p)" and "lines b \<noteq> []"
  shows "lines b' \<noteq> []"
proof -
  have "take (nat (Line pos)) ls \<noteq> []" if "0 < Line pos" "length ls = length (lines b)" for ls :: "string list"
    using that assms(2) by (cases ls) (auto simp: take_Cons')
  then show ?thesis
    using assms
    by (auto simp: Buffer_DeleteChar_def Let_def slice_to_def split: if_splits
        dest!: andThen_Inr_D slice_Inr_D)
qed

lemma InsertChar_in_range:
  assumes p: "inBuffer b pos"
  shows "Buffer_InsertChar b pos ch =
           Inr (b\<lparr>lines := (lines b)[nat (Line pos) :=
                     take (nat (Col pos)) (lines b ! nat (Line pos)) @ string_of_rune ch
                     @ drop (nat (Col pos)) (lines b ! nat (Line pos))],
                  dirty := True\<rparr>,
                \<lparr>Line = Line pos, Col = Col pos + 1\<rparr>)"
proof -
  let ?l = "lines b ! nat (Line pos)"
  have 1: "\<not> Line pos \<ge> len (lines b)"
    using inBuffer_line(5) [OF p] by simp
  have 2: "\<not> Col pos > len ?l"
    using inBuffer_line(7) [OF p] by simp
  show ?thesis
    unfolding Buffer_InsertChar_def Let_def
    by (simp add: 1 2 inBuffer_line(3) [OF p]
        slice_to_in_range [OF inBuffer_line(6) [OF p] inBuffer_line(7) [OF p]]
        slice_from_in_range [OF inBuffer_line(6) [OF p] inBuffer_line(7) [OF p]])
qed

lemma InsertNewline_in_range:
  assumes p: "inBuffer b pos"
  shows "Buffer_InsertNewline b pos =
           Inr (b\<lparr>lines := take (nat (Line pos)) (lines b)
                     @ [take (nat (Col pos)) (lines b ! nat (Line pos)),
                        drop (nat (Col pos)) (lines b ! nat (Line pos))]
                     @ drop (nat (Line pos) + 1) (lines b),
                  dirty := True\<rparr>,
                \<lparr>Line = Line pos + 1, Col = 0\<rparr>)"
proof -
  let ?n = "nat (Line pos)"
  let ?l = "lines b ! ?n"
  let ?ls = "(lines b)[?n := take (nat (Col pos)) ?l]"
  have 1: "\<not> Line pos \<ge> len (lines b)"
    using inBuffer_line(5) [OF p] by simp
  have 2: "\<not> Col pos > len ?l"
    using inBuffer_line(7) [OF p] by simp
  have n: "nat (Line pos + 1) = Suc ?n"
    using inBuffer_line(4) [OF p] by simp
  have le: "0 \<le> Line pos + 1" "Line pos + 1 \<le> len ?ls"
    using inBuffer_line(4,5) [OF p] by (simp_all add: len_def)
  have 3: "slice_to ?ls (Line pos + 1) = Inr (take ?n (lines b) @ [take (nat (Col pos)) ?l])"
    using slice_to_in_range [OF le] inBuffer_line(1) [OF p] by (simp add: n take_Suc_update)
  have 4: "slice_from ?ls (Line pos + 1) = Inr (drop (?n + 1) (lines b))"
    using slice_from_in_range [OF le] by (simp add: n)
  show ?thesis
    unfolding Buffer_InsertNewline_def Let_def
    by (simp add: 1 2 3 4 inBuffer_line(3) [OF p]
        slice_to_in_range [OF inBuffer_line(6) [OF p] inBuffer_line(7) [OF p]]
        slice_from_in_range [OF inBuffer_line(6) [OF p] inBuffer_line(7) [OF p]])
qed

lemma DeleteChar_returns:
  assumes p: "inBuffer b pos"
  shows "\<exists>b' p'. Buffer_DeleteChar b pos = Inr (b', p')"
proof -
  have "0 < Col pos \<and> Col pos \<le> len (GetLine b (Line pos)) \<or> (Col pos = 0 \<and> 0 < Line pos)
        \<or> (Col pos = 0 \<and> Line pos = 0)"
    using p by (auto simp: inBuffer_def)
  then show ?thesis
    using DeleteChar_branches [of pos b] p by (auto simp: inBuffer_def)
qed

text \<open>
  C3: every Buffer operation keeps at least one line. \<open>NewBuffer\<close> and \<open>LoadFile\<close>
  produce a non-empty line sequence; from a buffer with at least one line, whatever
  \<open>InsertChar\<close>, \<open>InsertNewline\<close> and \<open>DeleteChar\<close> return has at least one line
  (and they do return for a position inside the buffer); \<open>DeleteSelection\<close> with a
  selection whose endpoints lie inside the buffer returns a buffer with at least one line.
\<close>

theorem Buffer_lines_never_empty:
  assumes "lines b \<noteq> []"
  shows "lines NewBuffer \<noteq> []
       \<and> lines (fst (Buffer_LoadFile b name r)) \<noteq> []
       \<and> (\<forall>b' p. Buffer_InsertChar b pos ch = Inr (b', p) \<longrightarrow> lines b' \<noteq> [])
       \<and> (\<forall>b' p. Buffer_InsertNewline b pos = Inr (b', p) \<longrightarrow> lines b' \<noteq> [])
       \<and> (\<forall>b' p. Buffer_DeleteChar b pos = Inr (b', p) \<longrightarrow> lines b' \<noteq> [])
       \<and> (inBuffer b pos \<longrightarrow>
            (\<exists>b' p. Buffer_InsertChar b pos ch = Inr (b', p))
            \<and> (\<exists>b' p. Buffer_InsertNewline b pos = Inr (b', p))
            \<and> (\<exists>b' p. Buffer_DeleteChar b pos = Inr (b', p)))
       \<and> (inBuffer b (Start sel) \<and> inBuffer b (End sel) \<longrightarrow>
            (\<exists>b' p. Buffer_DeleteSelection b sel = Inr (b', p) \<and> lines b' \<noteq> []))"
proof -
  have 1: "lines NewBuffer \<noteq> []"
    by (simp add: NewBuffer_def)
  have 2: "lines (fst (Buffer_LoadFile b name r)) \<noteq> []"
    using assms by (cases r) (simp_all add: Buffer_LoadFile_def Split_LF_def Split_from_nonempty)
  have 3: "lines b' \<noteq> []" if "Buffer_InsertChar b pos ch = Inr (b', p)" for b' p
    using InsertChar_keeps_length [OF that] assms by auto
  have 4: "lines b' \<noteq> []" if "Buffer_InsertNewline b pos = Inr (b', p)" for b' p
    by (rule InsertNewline_nonempty [OF that assms])
  have 5: "lines b' \<noteq> []" if "Buffer_DeleteChar b pos = Inr (b', p)" for b' p
    by (rule DeleteChar_nonempty [OF that assms])
  have 6: "(\<exists>b' p. Buffer_InsertChar b pos ch = Inr (b', p))
            \<and> (\<exists>b' p. Buffer_InsertNewline b pos = Inr (b', p))
            \<and> (\<exists>b' p. Buffer_DeleteChar b pos = Inr (b', p))" if "inBuffer b pos"
    using InsertChar_in_range [OF that] InsertNewline_in_range [OF that] DeleteChar_returns [OF that]
    by simp
  have 7: "\<exists>b' p. Buffer_DeleteSelection b sel = Inr (b', p) \<and> lines b' \<noteq> []"
    if "inBuffer b (Start sel)" "inBuffer b (End sel)"
    using DeleteSelection_same_line [OF that] DeleteSelection_multi_line [OF that]
      Start_le_End [of sel] inBuffer_line(1) [OF that(1)]
    by (cases "Line (Start sel) = Line (End sel)") auto
  show ?thesis
    using 1 2 3 4 5 6 7 by blast
qed

theorem Buffer_lines_never_empty_witness:
  "lines \<lparr>lines = [''ab'', ''cd''], filename = [], dirty = False\<rparr> \<noteq> []
   \<and> inBuffer \<lparr>lines = [''ab'', ''cd''], filename = [], dirty = False\<rparr> \<lparr>Line = 1, Col = 0\<rparr>
   \<and> Buffer_DeleteChar \<lparr>lines = [''ab'', ''cd''], filename = [], dirty = False\<rparr>
        \<lparr>Line = 1, Col = 0\<rparr>
      = Inr (\<lparr>lines = [''abcd''], filename = [], dirty = True\<rparr>, \<lparr>Line = 0, Col = 2\<rparr>)
   \<and> lines \<lparr>lines = [''abcd''], filename = [], dirty = True\<rparr> \<noteq> []
   \<and> (\<exists>b' p. Buffer_DeleteSelection \<lparr>lines = [''ab'', ''cd''], filename = [], dirty = False\<rparr>
                 \<lparr>Anchor = \<lparr>Line = 0, Col = 0\<rparr>, Head = \<lparr>Line = 1, Col = 2\<rparr>\<rparr> = Inr (b', p)
               \<and> lines b' \<noteq> [])"
  using Buffer_lines_never_empty
          [of "\<lparr>lines = [''ab'', ''cd''], filename = [], dirty = False\<rparr>" _ _
              "\<lparr>Line = 1, Col = 0\<rparr>" _
              "\<lparr>Anchor = \<lparr>Line = 0, Col = 0\<rparr>, Head = \<lparr>Line = 1, Col = 2\<rparr>\<rparr>"]
  by (simp add: inBuffer_def Start_def End_def LineCount_def len_def GetLine_def
      Buffer_DeleteChar_def index_def slice_to_def slice_from_def slice_def)

subsection \<open>Out-of-range coordinates\<close>

text \<open>
  C2: the claim that no Buffer operation raises on an out-of-range coordinate does not
  hold of the code. \<open>DeleteSelection\<close> has no bounds check at all: on \<open>["ab"]\<close> the
  selection \<open>{0,0}\<close>-\<open>{0,5}\<close> slices the line past its end, and \<open>{0,0}\<close>-\<open>{3,0}\<close>
  indexes a line that does not exist. \<open>InsertChar\<close>, \<open>InsertNewline\<close> and
  \<open>DeleteChar\<close> check only \<open>pos.Line >= len(b.lines)\<close>, so a negative line or column
  panics, and so does \<open>GetSelectedText\<close> on a negative start column.
\<close>

theorem out_of_range_coordinates_panic:
  "Buffer_DeleteSelection \<lparr>lines = [''ab''], filename = [], dirty = False\<rparr>
     \<lparr>Anchor = \<lparr>Line = 0, Col = 0\<rparr>, Head = \<lparr>Line = 0, Col = 5\<rparr>\<rparr>
     = Inl SliceBoundsOutOfRange
   \<and> Buffer_DeleteSelection \<lparr>lines = [''ab''], filename = [], dirty = False\<rparr>
     \<lparr>Anchor = \<lparr>Line = 0, Col = 0\<rparr>, Head = \<lparr>Line = 3, Col = 0\<rparr>\<rparr>
     = Inl IndexOutOfRange
   \<and> Buffer_InsertChar \<lparr>lines = [''ab''], filename = [], dirty = False\<rparr>
        \<lparr>Line = - 1, Col = 0\<rparr> 120
     = Inl IndexOutOfRange
   \<and> Buffer_InsertNewline \<lparr>lines = [''ab''], filename = [], dirty = False\<rparr>
        \<lparr>Line = 0, Col = - 1\<rparr>
     = Inl SliceBoundsOutOfRange
   \<and> Buffer_DeleteChar \<lparr>lines = [''ab''], filename = [], dirty = False\<rparr>
        \<lparr>Line = - 1, Col = 0\<rparr>
     = Inl IndexOutOfRange
   \<and> GetSelectedText \<lparr>lines = [''ab''], filename = [], dirty = False\<rparr>
        \<lparr>Anchor = \<lparr>Line = 0, Col = - 1\<rparr>, Head = \<lparr>Line = 0, Col = 1\<rparr>\<rparr>
     = Inl SliceBoundsOutOfRange"
  by (simp add: Buffer_DeleteSelection_def Buffer_InsertChar_def Buffer_InsertNewline_def
      Buffer_DeleteChar_def GetSelectedText_def GetLine_def Start_def End_def Let_def
      index_def slice_to_def slice_from_def slice_def len_def)

subsection \<open>Load and save\<close>

lemma Join_LF_Cons: "ys \<noteq> [] \<Longrightarrow> Join_LF (x # ys) = x @ LF # Join_LF ys"
  by (cases ys) simp_all

lemma Join_Split_from: "Join_LF (Split_from cur s) = rev cur @ s"
  by (induction s arbitrary: cur) (simp_all add: Join_LF_Cons Split_from_nonempty)

lemma Join_Split: "Join_LF (Split_LF s) = s"
  by (simp add: Split_LF_def Join_Split_from)

lemma ReplaceAll_CRLF_Nil_iff: "ReplaceAll_CRLF s = [] \<longleftrightarrow> s = []"
  by (induction s rule: ReplaceAll_CRLF.induct) simp_all

text \<open>
  C9: saving right after loading writes the content back, CRLF normalized. Joining with
  LF the lines obtained by splitting the normalized content on LF (one empty line for
  empty content) gives the normalized content again, and \<open>SaveFile\<close> after \<open>LoadFile\<close>
  of a file named \<open>name\<close> asks for exactly that content to be written to \<open>name\<close>.
  (With an empty file name \<open>SaveFile\<close> writes nothing.)
\<close>

theorem SaveFile_after_LoadFile:
  assumes "name \<noteq> []"
  shows "Join_LF (if content = [] then [[]] else Split_LF (ReplaceAll_CRLF content))
           = ReplaceAll_CRLF content
       \<and> Buffer_SaveFile write_ok (fst (Buffer_LoadFile b name (ReadOk content)))
           = (fst (Buffer_LoadFile b name (ReadOk content)),
              Some (name, ReplaceAll_CRLF content), \<not> write_ok)"
proof -
  have j: "Join_LF (if content = [] then [[]] else Split_LF (ReplaceAll_CRLF content))
             = ReplaceAll_CRLF content"
    by (simp add: Join_Split)
  show ?thesis
    using assms j by (cases write_ok) (simp_all add: Buffer_SaveFile_def Buffer_LoadFile_def Let_def)
qed

theorem SaveFile_after_LoadFile_witness:
  "''f.txt'' \<noteq> []
   \<and> Buffer_SaveFile True (fst (Buffer_LoadFile NewBuffer ''f.txt'' (ReadOk (''ab'' @ [CR, LF] @ ''cd'' @ [LF]))))
       = (\<lparr>lines = [''ab'', ''cd'', []], filename = ''f.txt'', dirty = False\<rparr>,
          Some (''f.txt'', ''ab'' @ [LF] @ ''cd'' @ [LF]), False)"
  using SaveFile_after_LoadFile [of "''f.txt''" "''ab'' @ [CR, LF] @ ''cd'' @ [LF]" True NewBuffer]
  by (simp add: Buffer_LoadFile_def NewBuffer_def Split_LF_def CR_def LF_def)

subsection \<open>ExecuteCommand\<close>

text \<open>
  C4: \<open>ExecuteCommand\<close> trims the accumulator, clears it, and then: \<open>w\<close> saves and
  returns false; \<open>q\<close> returns true exactly when the buffer is not dirty, and in either
  case writes nothing and changes nothing but the accumulator; \<open>q!\<close> returns true;
  \<open>wq\<close> saves and returns true whatever the outcome of the save; anything else has no
  effect and returns false.
\<close>

theorem ExecuteCommand_table:
  "command (fst (ExecuteCommand write_ok e)) = []
   \<and> (TrimSpace (command e) = ''w'' \<longrightarrow>
        ExecuteCommand write_ok e =
          (fst (Editor_SaveFile write_ok (e\<lparr>command := []\<rparr>)),
           fst (snd (Editor_SaveFile write_ok (e\<lparr>command := []\<rparr>))), False))
   \<and> (TrimSpace (command e) = ''q'' \<longrightarrow>
        ExecuteCommand write_ok e = (e\<lparr>command := []\<rparr>, None, \<not> dirty (buffer e)))
   \<and> (TrimSpace (command e) = ''q!'' \<longrightarrow>
        ExecuteCommand write_ok e = (e\<lparr>command := []\<rparr>, None, True))
   \<and> (TrimSpace (command e) = ''wq'' \<longrightarrow>
        ExecuteCommand write_ok e =
          (fst (Editor_SaveFile write_ok (e\<lparr>command := []\<rparr>)),
           fst (snd (Editor_SaveFile write_ok (e\<lparr>command := []\<rparr>))), True))
   \<and> (TrimSpace (command e) \<notin> {''w'', ''q'', ''q!'', ''wq''} \<longrightarrow>
        ExecuteCommand write_ok e = (e\<lparr>command := []\<rparr>, None, False))"
  by (simp add: ExecuteCommand_def Editor_SaveFile_def Buffer_SaveFile_def IsDirty_def Let_def
      split: prod.splits)

text \<open>
  On a dirty buffer named \<open>f\<close>: the accumulator \<open>" wq\n"\<close> with a failing write still
  asks for the write and returns true, and leaves the buffer dirty; the accumulator
  \<open>"q"\<close> returns false and writes nothing.
\<close>

theorem ExecuteCommand_table_witness:
  "TrimSpace ('' wq'' @ [LF]) = ''wq''
   \<and> ExecuteCommand False
        (New\<lparr>buffer := \<lparr>lines = [''ab'', ''c''], filename = ''f'', dirty = True\<rparr>,
             command := '' wq'' @ [LF]\<rparr>)
      = (New\<lparr>buffer := \<lparr>lines = [''ab'', ''c''], filename = ''f'', dirty = True\<rparr>\<rparr>,
         Some (''f'', ''ab'' @ [LF] @ ''c''), True)
   \<and> TrimSpace ''q'' = ''q''
   \<and> ExecuteCommand True
        (New\<lparr>buffer := \<lparr>lines = [''ab'', ''c''], filename = ''f'', dirty = True\<rparr>,
             command := ''q''\<rparr>)
      = (New\<lparr>buffer := \<lparr>lines = [''ab'', ''c''], filename = ''f'', dirty = True\<rparr>\<rparr>,
         None, False)"
  using ExecuteCommand_table
          [of False "New\<lparr>buffer := \<lparr>lines = [''ab'', ''c''], filename = ''f'', dirty = True\<rparr>,
                         command := '' wq'' @ [LF]\<rparr>"]
        ExecuteCommand_table
          [of True "New\<lparr>buffer := \<lparr>lines = [''ab'', ''c''], filename = ''f'', dirty = True\<rparr>,
                        command := ''q''\<rparr>"]
  by (simp add: b2i_def asciiSpace_def LF_def New_def Editor_SaveFile_def Buffer_SaveFile_def)

subsection \<open>Consistency of cursor and selection\<close>

lemma clampCursor_fields [simp]:
  "buffer (clampCursor e) = buffer e" "selection (clampCursor e) = selection e"
  "mode (clampCursor e) = mode e" "command (clampCursor e) = command e"
  "clipboard (clampCursor e) = clipboard e"
  by (simp_all add: clampCursor_def Let_def)

lemma followCursor_fields [simp]:
  "buffer (followCursor e) = buffer e" "cursor (followCursor e) = cursor e"
  "mode (followCursor e) = mode e" "command (followCursor e) = command e"
  "clipboard (followCursor e) = clipboard e"
  by (simp_all add: followCursor_def)

lemma clampCursor_clamped:
  assumes "lines (buffer e) \<noteq> []"
  shows "cursorClamped (clampCursor e)"
proof -
  have "0 < len (lines (buffer e))"
    using assms by (simp add: len_def)
  then show ?thesis
    by (auto simp: cursorClamped_def clampCursor_def Let_def LineCount_def len_def)
qed

lemma cursorClamped_inBuffer: "cursorClamped e \<Longrightarrow> inBuffer (buffer e) (cursor e)"
  by (auto simp: cursorClamped_def inBuffer_def Let_def len_def split: if_splits)

lemma inBuffer_lines_nonempty: "inBuffer b p \<Longrightarrow> lines b \<noteq> []"
  by (auto simp: inBuffer_def LineCount_def len_def)

lemma cursorClamped_followCursor [simp]: "cursorClamped (followCursor e) = cursorClamped e"
  by (simp add: cursorClamped_def)

lemma consistent_followCursor:
  assumes "inBuffer (buffer e) (cursor e)" "inBuffer (buffer e) (Anchor (selection e))"
  shows "consistent (followCursor e)"
  using assms by (simp add: consistent_def followCursor_def ExtendTo_def NewSelection_def)

lemma consistent_move:
  assumes "consistent e" "buffer e' = buffer e" "selection e' = selection e"
  shows "consistent (followCursor (clampCursor e'))" "cursorClamped (followCursor (clampCursor e'))"
proof -
  have ne: "lines (buffer e') \<noteq> []"
    using assms inBuffer_lines_nonempty by (auto simp: consistent_def)
  show c: "cursorClamped (followCursor (clampCursor e'))"
    using clampCursor_clamped [OF ne] by simp
  show "consistent (followCursor (clampCursor e'))"
    using cursorClamped_inBuffer [OF clampCursor_clamped [OF ne]] assms
    by (intro consistent_followCursor) (simp_all add: consistent_def)
qed

lemma string_of_rune_nonempty: "string_of_rune ch \<noteq> []"
  by (simp add: string_of_rune_def)

lemma inBuffer_update_line:
  assumes "nat (Line p) < length ls" "0 \<le> Line p" "0 \<le> Col p" "Col p \<le> len l"
  shows "inBuffer (b\<lparr>lines := ls[nat (Line p) := l], dirty := d\<rparr>) p"
  using assms by (simp add: inBuffer_def LineCount_def GetLine_def len_def)

lemma InsertChar_consistent:
  assumes p: "inBuffer b pos"
  shows "\<exists>b' p'. Buffer_InsertChar b pos ch = Inr (b', p') \<and> inBuffer b' p'"
proof -
  have "Col pos + 1 \<le> len (take (nat (Col pos)) (lines b ! nat (Line pos)) @ string_of_rune ch
                     @ drop (nat (Col pos)) (lines b ! nat (Line pos)))"
    using inBuffer_line(6,8) [OF p] string_of_rune_nonempty [of ch]
    by (cases "string_of_rune ch") (auto simp: len_def)
  then have "inBuffer (b\<lparr>lines := (lines b)[nat (Line pos) :=
                     take (nat (Col pos)) (lines b ! nat (Line pos)) @ string_of_rune ch
                     @ drop (nat (Col pos)) (lines b ! nat (Line pos))],
                  dirty := True\<rparr>) \<lparr>Line = Line pos, Col = Col pos + 1\<rparr>"
    using inBuffer_line(1,4,6) [OF p] by (simp add: inBuffer_def LineCount_def GetLine_def len_def)
  then show ?thesis
    using InsertChar_in_range [OF p] by simp
qed

lemma InsertNewline_consistent:
  assumes p: "inBuffer b pos"
  shows "\<exists>b' p'. Buffer_InsertNewline b pos = Inr (b', p') \<and> inBuffer b' p'
           \<and> p' = \<lparr>Line = Line pos + 1, Col = 0\<rparr>"
  using InsertNewline_in_range [OF p] inBuffer_line(1,4) [OF p]
  by (simp add: inBuffer_def LineCount_def GetLine_def len_def)

lemma nth_middle_take:
  "n \<le> length xs \<Longrightarrow> (take n xs @ [v] @ ys) ! n = v"
  by (simp add: nth_append)

lemma DeleteChar_consistent:
  assumes p: "inBuffer b pos"
  shows "\<exists>b' p'. Buffer_DeleteChar b pos = Inr (b', p') \<and> inBuffer b' p'"
proof -
  let ?n = "nat (Line pos)"
  note br = DeleteChar_branches [OF inBuffer_line(4) [OF p], of b]
  have lc: "Line pos < LineCount b"
    using p by (simp add: inBuffer_def)
  consider (a) "0 < Col pos" | (b) "Col pos = 0" "0 < Line pos" | (c) "Col pos = 0" "Line pos = 0"
    using inBuffer_line(4,6) [OF p] by linarith
  then show ?thesis
  proof cases
    case a
    have "Col pos - 1 \<le> len (take (nat (Col pos) - 1) (lines b ! ?n) @ drop (nat (Col pos)) (lines b ! ?n))"
      using a inBuffer_line(8) [OF p] by (simp add: len_def)
    then have "inBuffer (b\<lparr>lines := (lines b)[?n :=
                        take (nat (Col pos) - 1) (lines b ! ?n) @ drop (nat (Col pos)) (lines b ! ?n)],
                     dirty := True\<rparr>) \<lparr>Line = Line pos, Col = Col pos - 1\<rparr>"
      using a inBuffer_line(1,4) [OF p] by (simp add: inBuffer_def LineCount_def GetLine_def len_def)
    then show ?thesis
      using br [OF lc] a inBuffer_line(2,7) [OF p] by simp
  next
    case b
    have n: "0 < ?n" "?n - 1 \<le> length (lines b)" "nat (Line pos - 1) = ?n - 1"
      using b inBuffer_line(1) [OF p] by (simp_all add: nat_diff_distrib)
    have "inBuffer (b\<lparr>lines := take (?n - 1) (lines b)
                        @ [GetLine b (Line pos - 1) @ GetLine b (Line pos)]
                        @ drop (?n + 1) (lines b), dirty := True\<rparr>)
            \<lparr>Line = Line pos - 1, Col = len (GetLine b (Line pos - 1))\<rparr>"
      using b n inBuffer_line(1) [OF p] nth_middle_take [OF n(2)]
      by (simp add: inBuffer_def LineCount_def len_def GetLine_def [of "b\<lparr>lines := _, dirty := _\<rparr>"])
    then show ?thesis
      using br [OF lc] b by simp
  next
    case c
    then show ?thesis
      using br [OF lc] p by simp
  qed
qed

lemma Start_End_cases: "(Start sel = Anchor sel \<and> End sel = Head sel) \<or> (Start sel = Head sel \<and> End sel = Anchor sel)"
  by (auto simp: Start_def End_def)

lemma Start_End_col: "Line (Start sel) = Line (End sel) \<Longrightarrow> Col (Start sel) \<le> Col (End sel)"
  by (auto simp: Start_def End_def split: if_splits)

lemma DeleteSelection_consistent:
  assumes s: "inBuffer b (Start sel)" and e: "inBuffer b (End sel)"
  shows "\<exists>b' p'. Buffer_DeleteSelection b sel = Inr (b', p') \<and> inBuffer b' p'"
proof (cases "Line (Start sel) = Line (End sel)")
  case True
  have "Col (Start sel) \<le> len (take (nat (Col (Start sel))) (GetLine b (Line (Start sel)))
                     @ drop (nat (Col (End sel))) (GetLine b (Line (Start sel))))"
    using inBuffer_line(6,8) [OF s] by (simp add: len_def inBuffer_line(2) [OF s])
  then have "inBuffer (b\<lparr>lines := (lines b)[nat (Line (Start sel)) :=
                     take (nat (Col (Start sel))) (GetLine b (Line (Start sel)))
                     @ drop (nat (Col (End sel))) (GetLine b (Line (Start sel)))],
                  dirty := True\<rparr>) (Start sel)"
    by (intro inBuffer_update_line inBuffer_line(1,4,6) [OF s])
  then show ?thesis
    using DeleteSelection_same_line [OF s e True] by simp
next
  case False
  then have lt: "Line (Start sel) < Line (End sel)"
    using Start_le_End [of sel] by simp
  have n: "nat (Line (Start sel)) \<le> length (lines b)"
    using inBuffer_line(1) [OF s] by simp
  have "inBuffer (b\<lparr>lines := take (nat (Line (Start sel))) (lines b)
                     @ [take (nat (Col (Start sel))) (GetLine b (Line (Start sel)))
                        @ drop (nat (Col (End sel))) (GetLine b (Line (End sel)))]
                     @ drop (nat (Line (End sel)) + 1) (lines b),
                  dirty := True\<rparr>) (Start sel)"
    using inBuffer_line(1,4,6,8) [OF s] nth_middle_take [OF n]
    by (simp add: inBuffer_def LineCount_def len_def inBuffer_line(2) [OF s]
        GetLine_def [of "b\<lparr>lines := _, dirty := _\<rparr>"])
  then show ?thesis
    using DeleteSelection_multi_line [OF s e lt] by simp
qed

subsection \<open>The loops return\<close>

lemma scanWordForward_returns:
  "0 \<le> col \<Longrightarrow> \<exists>c. scanWordForward line col inWord = Inr c \<and> col \<le> c \<and> c \<le> max col (len line)"
proof (induction line col inWord rule: scanWordForward.induct)
  case (1 line col inWord)
  show ?case
  proof (cases "col < len line")
    case False
    then show ?thesis
      by (subst scanWordForward.simps) simp
  next
    case True
    let ?ch = "line ! nat col"
    have ix: "index line col = Inr ?ch"
      using True "1.prems" by (simp add: index_in_range)
    consider (enter) "\<not> inWord \<and> isAlphaNum ?ch" | (leave) "\<not> (\<not> inWord \<and> isAlphaNum ?ch)" "inWord \<and> \<not> isAlphaNum ?ch"
      | (step) "\<not> (\<not> inWord \<and> isAlphaNum ?ch)" "\<not> (inWord \<and> \<not> isAlphaNum ?ch)"
      by blast
    then show ?thesis
    proof cases
      case enter
      have "\<exists>c. scanWordForward line (col + 1) True = Inr c \<and> col + 1 \<le> c \<and> c \<le> max (col + 1) (len line)"
        using "1.IH"(1) [OF True, of ?ch] enter "1.prems" by simp
      then show ?thesis
        using True ix enter by (subst scanWordForward.simps) auto
    next
      case leave
      then show ?thesis
        using True ix by (subst scanWordForward.simps) auto
    next
      case step
      have "\<exists>c. scanWordForward line (col + 1) inWord = Inr c \<and> col + 1 \<le> c \<and> c \<le> max (col + 1) (len line)"
        using "1.IH"(2) [OF True, of ?ch] step "1.prems" by simp
      then show ?thesis
        using True ix step by (subst scanWordForward.simps) auto
    qed
  qed
qed

lemma skipSpacesBackward_returns:
  "col < len line \<Longrightarrow> \<exists>c. skipSpacesBackward line col = Inr c \<and> c \<le> col"
proof (induction line col rule: skipSpacesBackward.induct)
  case (1 line col)
  show ?case
  proof (cases "col > 0")
    case False
    then show ?thesis
      by (subst skipSpacesBackward.simps) simp
  next
    case True
    let ?ch = "line ! nat col"
    have ix: "index line col = Inr ?ch"
      using True "1.prems" by (simp add: index_in_range)
    show ?thesis
    proof (cases "?ch = CHR '' ''")
      case sp: True
      have "\<exists>c. skipSpacesBackward line (col - 1) = Inr c \<and> c \<le> col - 1"
        using "1.IH" [OF True, of ?ch] sp "1.prems" by simp
      then show ?thesis
        using True ix sp by (subst skipSpacesBackward.simps) auto
    next
      case False
      then show ?thesis
        using True ix by (subst skipSpacesBackward.simps) auto
    qed
  qed
qed

lemma scanWordBackward_returns:
  "col < len line \<Longrightarrow> \<exists>c. scanWordBackward line col = Inr c \<and> c \<le> col"
proof (induction line col rule: scanWordBackward.induct)
  case (1 line col)
  show ?case
  proof (cases "col > 0")
    case False
    then show ?thesis
      by (subst scanWordBackward.simps) simp
  next
    case True
    let ?prev = "line ! nat (col - 1)" and ?cur = "line ! nat col"
    have ix: "index line (col - 1) = Inr ?prev" "index line col = Inr ?cur"
      using True "1.prems" by (simp_all add: index_in_range)
    show ?thesis
    proof (cases "\<not> isAlphaNum ?prev \<and> isAlphaNum ?cur")
      case True
      then show ?thesis
        using \<open>col > 0\<close> ix by (subst scanWordBackward.simps) auto
    next
      case False
      have "\<exists>c. scanWordBackward line (col - 1) = Inr c \<and> c \<le> col - 1"
        using "1.IH" [OF True, of ?prev ?cur] False "1.prems" by simp
      then show ?thesis
        using True ix False by (subst scanWordBackward.simps) auto
    qed
  qed
qed

lemma wordStart_returns:
  "start \<le> len line \<Longrightarrow> 0 \<le> start \<Longrightarrow> \<exists>s. wordStart line start = Inr s \<and> 0 \<le> s \<and> s \<le> start"
proof (induction line start rule: wordStart.induct)
  case (1 line start)
  show ?case
  proof (cases "start > 0")
    case False
    then show ?thesis
      using "1.prems" by (subst wordStart.simps) simp
  next
    case True
    let ?ch = "line ! nat (start - 1)"
    have ix: "index line (start - 1) = Inr ?ch"
      using True "1.prems" by (simp add: index_in_range)
    show ?thesis
    proof (cases "isAlphaNum ?ch")
      case w: True
      have "\<exists>s. wordStart line (start - 1) = Inr s \<and> 0 \<le> s \<and> s \<le> start - 1"
        using "1.IH" [OF True, of ?ch] w True "1.prems" by simp
      then show ?thesis
        using True ix w by (subst wordStart.simps) auto
    next
      case False
      then show ?thesis
        using True ix "1.prems" by (subst wordStart.simps) auto
    qed
  qed
qed

lemma wordEnd_returns:
  "0 \<le> end \<Longrightarrow> end \<le> len line \<Longrightarrow> \<exists>e. wordEnd line end = Inr e \<and> end \<le> e \<and> e \<le> len line"
proof (induction line "end" rule: wordEnd.induct)
  case (1 line "end")
  show ?case
  proof (cases "end < len line")
    case False
    then show ?thesis
      using "1.prems" by (subst wordEnd.simps) simp
  next
    case True
    let ?ch = "line ! nat end"
    have ix: "index line end = Inr ?ch"
      using True "1.prems" by (simp add: index_in_range)
    show ?thesis
    proof (cases "isAlphaNum ?ch")
      case w: True
      have "\<exists>e. wordEnd line (end + 1) = Inr e \<and> end + 1 \<le> e \<and> e \<le> len line"
        using "1.IH" [OF True, of ?ch] w True "1.prems" by simp
      then show ?thesis
        using True ix w by (subst wordEnd.simps) auto
    next
      case False
      then show ?thesis
        using True ix "1.prems" by (subst wordEnd.simps) auto
    qed
  qed
qed

lemma GetSelectedText_loop_returns:
  "0 \<le> Col start \<Longrightarrow> \<exists>t. GetSelectedText_loop b start end i result = Inr t"
proof (induction b start "end" i result rule: GetSelectedText_loop.induct)
  case (1 b start "end" i result)
  show ?case
  proof (cases "i \<le> Line end \<and> i < len (lines b)")
    case False
    then show ?thesis
      by (subst GetSelectedText_loop.simps) auto
  next
    case True
    let ?line = "GetLine b i"
    have sf: "slice_from ?line (Col start) = Inr (drop (nat (Col start)) ?line)"
      if "Col start < len ?line"
      using that "1.prems" by (simp add: slice_from_in_range)
    have st: "slice_to ?line (Col end) = Inr (take (nat (Col end)) ?line)"
      if "Col end > 0 \<and> Col end \<le> len ?line"
      using that by (simp add: slice_to_in_range)
    consider (first) "i = Line start" | (last) "i \<noteq> Line start" "i = Line end"
      | (mid) "i \<noteq> Line start" "i \<noteq> Line end"
      by blast
    then show ?thesis
    proof cases
      case first
      have "\<exists>t. GetSelectedText_loop b start end (i + 1) (r @ [LF]) = Inr t" for r
        using "1.IH"(1) [OF True refl first, of r] "1.prems" by simp
      then show ?thesis
        using True first sf by (subst GetSelectedText_loop.simps) (auto simp: Let_def)
    next
      case last
      have "\<exists>t. GetSelectedText_loop b start end (i + 1) r = Inr t" for r
        using "1.IH"(2) [OF True refl last, of r] "1.prems" by simp
      then show ?thesis
        using True last st by (subst GetSelectedText_loop.simps) (auto simp: Let_def)
    next
      case mid
      have "\<exists>t. GetSelectedText_loop b start end (i + 1) (result @ ?line @ [LF]) = Inr t"
        using "1.IH"(3) [OF True refl mid] "1.prems" by simp
      then show ?thesis
        using True mid by (subst GetSelectedText_loop.simps) (auto simp: Let_def)
    qed
  qed
qed

lemma GetSelectedText_returns:
  assumes "0 \<le> Col (Start sel)"
  shows "\<exists>t. GetSelectedText b sel = Inr t"
proof (cases "Line (Start sel) = Line (End sel)")
  case True
  let ?line = "GetLine b (Line (Start sel))"
  show ?thesis
  proof (cases "Col (Start sel) \<ge> len ?line \<or> Col (End sel) > len ?line")
    case c: True
    then show ?thesis
      using True by (auto simp: GetSelectedText_def Let_def)
  next
    case False
    then have "slice ?line (Col (Start sel)) (Col (End sel))
                 = Inr (take (nat (Col (End sel)) - nat (Col (Start sel))) (drop (nat (Col (Start sel))) ?line))"
      using assms Start_End_col [OF True] by (intro slice_in_range) simp_all
    then show ?thesis
      using True False by (simp add: GetSelectedText_def Let_def)
  qed
next
  case False
  then show ?thesis
    using GetSelectedText_loop_returns [OF assms] by (simp add: GetSelectedText_def Let_def)
qed

lemma insertRunes_consistent:
  "inBuffer b pos \<Longrightarrow> \<exists>b' p'. insertRunes chs b pos = Inr (b', p') \<and> inBuffer b' p'"
proof (induction chs arbitrary: b pos)
  case Nil
  then show ?case by simp
next
  case (Cons ch chs)
  obtain b1 p1 where 1: "Buffer_InsertChar b pos ch = Inr (b1, p1)" "inBuffer b1 p1"
    using InsertChar_consistent [OF Cons.prems] by blast
  show ?case
    using Cons.IH [OF 1(2)] 1(1) by simp
qed

lemma pasteLines_consistent:
  "inBuffer b pos \<Longrightarrow> \<exists>b' p'. pasteLines ls b pos = Inr (b', p') \<and> inBuffer b' p'"
proof (induction ls arbitrary: b pos)
  case Nil
  then show ?case by simp
next
  case (Cons l ls)
  obtain b1 p1 where 1: "insertRunes (runes l) b pos = Inr (b1, p1)" "inBuffer b1 p1"
    using insertRunes_consistent [OF Cons.prems] by blast
  obtain b2 p2 where 2: "Buffer_InsertNewline b1 p1 = Inr (b2, p2)" "inBuffer b2 p2"
    using InsertNewline_consistent [OF 1(2)] by blast
  show ?case
    using Cons.IH [OF 1(2)] Cons.IH [OF 2(2)] 1 2(1) by (cases "ls = []") simp_all
qed

subsection \<open>Every command keeps the editor consistent\<close>

lemma inBuffer_same_lines: "lines b' = lines b \<Longrightarrow> inBuffer b' p = inBuffer b p"
  by (simp add: inBuffer_def LineCount_def GetLine_def)

lemma consistent_same:
  assumes "consistent e" "lines (buffer e') = lines (buffer e)" "cursor e' = cursor e"
    "selection e' = selection e"
  shows "consistent e'"
  using assms by (simp add: consistent_def inBuffer_same_lines [OF assms(2)])

lemma cursorClamped_same:
  assumes "cursorClamped e" "lines (buffer e') = lines (buffer e)" "cursor e' = cursor e"
    "mode e' = mode e"
  shows "cursorClamped e'"
proof -
  have "GetLine (buffer e') n = GetLine (buffer e) n" for n
    using assms(2) by (simp add: GetLine_def)
  moreover have "LineCount (buffer e') = LineCount (buffer e)"
    using assms(2) by (simp add: LineCount_def)
  ultimately show ?thesis
    using assms(1,3,4) by (simp add: cursorClamped_def Let_def)
qed

lemma consistent_collapsed:
  assumes "inBuffer (buffer e) (cursor e)" "selection e = NewSelection (cursor e)"
  shows "consistent e"
  using assms by (simp add: consistent_def NewSelection_def)

lemma SetMode_consistent: "consistent e \<Longrightarrow> consistent (SetMode e m)"
  by (simp add: consistent_def SetMode_def Let_def NewSelection_def)

lemma MoveToLineStart_consistent:
  assumes "consistent e"
  shows "consistent (MoveToLineStart e)" "cursorClamped (MoveToLineStart e)"
proof -
  have c: "inBuffer (buffer e) ((cursor e)\<lparr>Col := 0\<rparr>)"
    using assms by (simp add: consistent_def inBuffer_def len_def)
  show "consistent (MoveToLineStart e)"
    unfolding MoveToLineStart_def
    using c assms by (intro consistent_followCursor) (simp_all add: consistent_def)
  show "cursorClamped (MoveToLineStart e)"
    using c by (simp add: MoveToLineStart_def cursorClamped_def inBuffer_def Let_def len_def)
qed

lemma MoveToLineEnd_consistent:
  assumes "consistent e"
  shows "consistent (MoveToLineEnd e)" "cursorClamped (MoveToLineEnd e)"
proof -
  let ?lineLen = "len (GetLine (buffer e) (Line (cursor e)))"
  let ?col = "if mode e = ModeNormal \<and> ?lineLen > 0 then ?lineLen - 1 else ?lineLen"
  have c: "inBuffer (buffer e) ((cursor e)\<lparr>Col := ?col\<rparr>)"
    using assms by (simp add: consistent_def inBuffer_def len_def)
  show "consistent (MoveToLineEnd e)"
    unfolding MoveToLineEnd_def Let_def
    using c assms by (intro consistent_followCursor) (simp_all add: consistent_def)
  show "cursorClamped (MoveToLineEnd e)"
    using c by (auto simp: MoveToLineEnd_def cursorClamped_def inBuffer_def Let_def len_def)
qed

lemma MoveWordForward_consistent:
  assumes "consistent e"
  shows "\<exists>e'. MoveWordForward e = Inr e' \<and> consistent e' \<and> cursorClamped e'"
proof -
  have "0 \<le> Col (cursor e)"
    using assms by (simp add: consistent_def inBuffer_def)
  then obtain col where
    "scanWordForward (GetLine (buffer e) (Line (cursor e))) (Col (cursor e)) False = Inr col"
    using scanWordForward_returns by blast
  then show ?thesis
    using consistent_move [OF assms] by (simp add: MoveWordForward_def Let_def)
qed

lemma MoveWordBackward_consistent:
  assumes "consistent e"
  shows "\<exists>e'. MoveWordBackward e = Inr e' \<and> consistent e' \<and> cursorClamped e'"
proof (cases "Col (cursor e) = 0")
  case True
  then show ?thesis
    using consistent_move [OF assms] by (simp add: MoveWordBackward_def)
next
  case False
  let ?line = "GetLine (buffer e) (Line (cursor e))"
  have "Col (cursor e) - 1 < len ?line"
    using assms by (simp add: consistent_def inBuffer_def)
  then obtain col1 where 1: "skipSpacesBackward ?line (Col (cursor e) - 1) = Inr col1"
    "col1 \<le> Col (cursor e) - 1"
    using skipSpacesBackward_returns by blast
  then have "col1 < len ?line"
    using \<open>Col (cursor e) - 1 < len ?line\<close> by simp
  then obtain col where 2: "scanWordBackward ?line col1 = Inr col"
    using scanWordBackward_returns by blast
  show ?thesis
    using False 1(1) 2 consistent_move [OF assms] by (simp add: MoveWordBackward_def Let_def)
qed

lemma SelectLine_consistent: "consistent e \<Longrightarrow> consistent (SelectLine e)"
  by (simp add: consistent_def SelectLine_def Let_def inBuffer_def len_def)

lemma SelectWord_consistent:
  assumes "consistent e"
  shows "\<exists>e'. SelectWord e = Inr e' \<and> consistent e'"
proof -
  let ?line = "GetLine (buffer e) (Line (cursor e))"
  let ?c = "Col (cursor e)"
  have c: "0 \<le> ?c" "?c \<le> len ?line" "0 \<le> Line (cursor e)" "Line (cursor e) < LineCount (buffer e)"
    using assms by (simp_all add: consistent_def inBuffer_def)
  show ?thesis
  proof (cases "?c \<ge> len ?line")
    case True
    then show ?thesis
      using assms by (simp add: SelectWord_def Let_def)
  next
    case False
    then have ix: "index ?line ?c = Inr (?line ! nat ?c)"
      using c by (simp add: index_in_range)
    show ?thesis
    proof (cases "isAlphaNum (?line ! nat ?c)")
      case na: False
      then show ?thesis
        using False ix assms by (simp add: SelectWord_def Let_def)
    next
      case True
      obtain s where s: "wordStart ?line ?c = Inr s" "0 \<le> s" "s \<le> ?c"
        using wordStart_returns [OF c(2) c(1)] by blast
      obtain en where en: "wordEnd ?line ?c = Inr en" "?c \<le> en" "en \<le> len ?line"
        using wordEnd_returns [OF c(1) c(2)] by blast
      have "consistent (e\<lparr>selection := \<lparr>Anchor = \<lparr>Line = Line (cursor e), Col = s\<rparr>,
                                          Head = \<lparr>Line = Line (cursor e), Col = en\<rparr>\<rparr>,
                          cursor := \<lparr>Line = Line (cursor e), Col = en\<rparr>\<rparr>)"
        using c s en by (simp add: consistent_def inBuffer_def)
      then show ?thesis
        using False ix True s(1) en(1) by (simp add: SelectWord_def Let_def)
    qed
  qed
qed

lemma consistent_Start_End:
  assumes "consistent e"
  shows "inBuffer (buffer e) (Start (selection e))" "inBuffer (buffer e) (End (selection e))"
  using assms Start_End_cases [of "selection e"] by (auto simp: consistent_def)

lemma consistent_after_edit:
  assumes "inBuffer b pos"
  shows "consistent (clampCursor (e\<lparr>buffer := b, cursor := pos, selection := NewSelection pos\<rparr>))"
    and "cursorClamped (clampCursor (e\<lparr>buffer := b, cursor := pos, selection := NewSelection pos\<rparr>))"
    and "consistent (e\<lparr>buffer := b, cursor := pos, selection := NewSelection pos\<rparr>)"
proof -
  let ?e = "e\<lparr>buffer := b, cursor := pos, selection := NewSelection pos\<rparr>"
  have ne: "lines (buffer ?e) \<noteq> []"
    using inBuffer_lines_nonempty [OF assms] by simp
  show cl: "cursorClamped (clampCursor ?e)"
    by (rule clampCursor_clamped [OF ne])
  show "consistent (clampCursor ?e)"
    using cursorClamped_inBuffer [OF cl] assms by (simp add: consistent_def NewSelection_def)
  show "consistent ?e"
    using assms by (simp add: consistent_def NewSelection_def)
qed

lemma Editor_DeleteSelection_consistent:
  assumes "consistent e"
  shows "\<exists>e'. Editor_DeleteSelection e = Inr e' \<and> consistent e'
           \<and> (\<not> IsEmpty (selection e) \<longrightarrow> cursorClamped e')
           \<and> (IsEmpty (selection e) \<longrightarrow> e' = e)"
proof (cases "IsEmpty (selection e)")
  case True
  then show ?thesis
    using assms by (simp add: Editor_DeleteSelection_def)
next
  case False
  obtain b p where "Buffer_DeleteSelection (buffer e) (selection e) = Inr (b, p)" "inBuffer b p"
    using DeleteSelection_consistent [OF consistent_Start_End [OF assms]] by blast
  then show ?thesis
    using False consistent_after_edit(1,2) [of b p e] by (simp add: Editor_DeleteSelection_def)
qed

lemma YankSelection_frame:
  assumes "consistent e"
  shows "\<exists>t. YankSelection e = Inr (e\<lparr>clipboard := t\<rparr>)"
proof (cases "IsEmpty (selection e)")
  case True
  then have "YankSelection e = Inr (e\<lparr>clipboard := clipboard e\<rparr>)"
    by (simp add: YankSelection_def)
  then show ?thesis ..
next
  case False
  have "0 \<le> Col (Start (selection e))"
    using consistent_Start_End(1) [OF assms] by (simp add: inBuffer_def)
  then obtain t where "GetSelectedText (buffer e) (selection e) = Inr t"
    using GetSelectedText_returns by blast
  then have "YankSelection e = Inr (e\<lparr>clipboard := t\<rparr>)"
    using False by (simp add: YankSelection_def)
  then show ?thesis ..
qed

lemma Paste_consistent:
  assumes "consistent e"
  shows "\<exists>e'. Paste e = Inr e' \<and> consistent e'"
proof (cases "clipboard e = []")
  case True
  then show ?thesis
    using assms by (simp add: Paste_def)
next
  case False
  have c: "inBuffer (buffer e) (cursor e)"
    using assms by (simp add: consistent_def)
  obtain b p where
    "(if length (Split_LF (clipboard e)) = 1
      then insertRunes (runes (clipboard e)) (buffer e) (cursor e)
      else pasteLines (Split_LF (clipboard e)) (buffer e) (cursor e)) = Inr (b, p)" "inBuffer b p"
    using insertRunes_consistent [OF c] pasteLines_consistent [OF c]
    by (cases "length (Split_LF (clipboard e)) = 1") (simp_all, blast+)
  then show ?thesis
    using False consistent_after_edit(3) [of b p e] by (simp add: Paste_def Let_def)
qed

lemma Editor_InsertChar_consistent:
  assumes "consistent e"
  shows "\<exists>e'. Editor_InsertChar e ch = Inr e' \<and> consistent e'"
proof -
  obtain b p where "Buffer_InsertChar (buffer e) (cursor e) ch = Inr (b, p)" "inBuffer b p"
    using InsertChar_consistent assms consistent_def by blast
  then show ?thesis
    using consistent_after_edit(3) [of b p e] by (simp add: Editor_InsertChar_def)
qed

lemma Editor_InsertNewline_consistent:
  assumes "consistent e"
  shows "\<exists>e'. Editor_InsertNewline e = Inr e' \<and> consistent e' \<and> cursorClamped e'"
proof -
  obtain b p where 1: "Buffer_InsertNewline (buffer e) (cursor e) = Inr (b, p)" "inBuffer b p"
    "p = \<lparr>Line = Line (cursor e) + 1, Col = 0\<rparr>"
    using InsertNewline_consistent assms consistent_def by blast
  have "cursorClamped (e\<lparr>buffer := b, cursor := p, selection := NewSelection p\<rparr>)"
    using 1(2,3) by (simp add: cursorClamped_def inBuffer_def Let_def len_def)
  then show ?thesis
    using 1(1) consistent_after_edit(3) [OF 1(2), of e] by (simp add: Editor_InsertNewline_def)
qed

lemma Backspace_consistent:
  assumes "consistent e"
  shows "\<exists>e'. Backspace e = Inr e' \<and> consistent e' \<and> cursorClamped e'"
proof -
  obtain b p where "Buffer_DeleteChar (buffer e) (cursor e) = Inr (b, p)" "inBuffer b p"
    using DeleteChar_consistent assms consistent_def by blast
  then show ?thesis
    using consistent_after_edit(1,2) [of b p e] by (simp add: Backspace_def)
qed

lemma SaveFile_fields [simp]:
  "lines (buffer (fst (Editor_SaveFile write_ok e))) = lines (buffer e)"
  "cursor (fst (Editor_SaveFile write_ok e)) = cursor e"
  "selection (fst (Editor_SaveFile write_ok e)) = selection e"
  "mode (fst (Editor_SaveFile write_ok e)) = mode e"
  by (simp_all add: Editor_SaveFile_def Buffer_SaveFile_def Let_def)

lemma ExecuteCommand_fields [simp]:
  "lines (buffer (fst (ExecuteCommand write_ok e))) = lines (buffer e)"
  "cursor (fst (ExecuteCommand write_ok e)) = cursor e"
  "selection (fst (ExecuteCommand write_ok e)) = selection e"
  "mode (fst (ExecuteCommand write_ok e)) = mode e"
  by (simp_all add: ExecuteCommand_def Editor_SaveFile_def Buffer_SaveFile_def Let_def)

lemma run_consistent:
  assumes c: "consistent e"
  shows "\<exists>e'. run c e = Inr e' \<and> consistent e'
           \<and> (clamps c e \<longrightarrow> cursorClamped e')
           \<and> (leavesCursor c e \<and> cursorClamped e \<longrightarrow> cursorClamped e')"
proof (cases c)
  case (CmdSetMode m)
  then show ?thesis
    using SetMode_consistent [OF c] by simp
next
  case (CmdMoveCursor dLine dCol)
  then show ?thesis
    using consistent_move [OF c] by (simp add: MoveCursor_def)
next
  case (CmdMoveCursorTo pos)
  then show ?thesis
    using consistent_move [OF c] by (simp add: MoveCursorTo_def)
next
  case CmdMoveToLineStart
  then show ?thesis
    using MoveToLineStart_consistent [OF c] by simp
next
  case CmdMoveToLineEnd
  then show ?thesis
    using MoveToLineEnd_consistent [OF c] by simp
next
  case CmdMoveWordForward
  then show ?thesis
    using MoveWordForward_consistent [OF c] by auto
next
  case CmdMoveWordBackward
  then show ?thesis
    using MoveWordBackward_consistent [OF c] by auto
next
  case CmdSelectLine
  then show ?thesis
    using SelectLine_consistent [OF c] by simp
next
  case CmdSelectWord
  then show ?thesis
    using SelectWord_consistent [OF c] by auto
next
  case CmdDeleteSelection
  then show ?thesis
    using Editor_DeleteSelection_consistent [OF c] by auto
next
  case CmdYankSelection
  obtain t where "YankSelection e = Inr (e\<lparr>clipboard := t\<rparr>)"
    using YankSelection_frame [OF c] by blast
  then show ?thesis
    using CmdYankSelection consistent_same [OF c, of "e\<lparr>clipboard := t\<rparr>"]
      cursorClamped_same [of e "e\<lparr>clipboard := t\<rparr>"]
    by simp
next
  case CmdPaste
  then show ?thesis
    using Paste_consistent [OF c] by auto
next
  case (CmdInsertChar ch)
  then show ?thesis
    using Editor_InsertChar_consistent [OF c] by auto
next
  case CmdInsertNewline
  then show ?thesis
    using Editor_InsertNewline_consistent [OF c] by auto
next
  case CmdBackspace
  then show ?thesis
    using Backspace_consistent [OF c] by auto
next
  case (CmdAppendCommand ch)
  then show ?thesis
    using consistent_same [OF c, of "AppendCommand e ch"]
      cursorClamped_same [of e "AppendCommand e ch"]
    by (simp add: AppendCommand_def)
next
  case CmdBackspaceCommand
  then show ?thesis
    using consistent_same [OF c, of "BackspaceCommand e"]
      cursorClamped_same [of e "BackspaceCommand e"]
    by (simp add: BackspaceCommand_def)
next
  case CmdClearCommand
  then show ?thesis
    using consistent_same [OF c, of "ClearCommand e"]
      cursorClamped_same [of e "ClearCommand e"]
    by (simp add: ClearCommand_def)
next
  case (CmdExecuteCommand write_ok)
  then show ?thesis
    using consistent_same [OF c, of "fst (ExecuteCommand write_ok e)"]
      cursorClamped_same [of e "fst (ExecuteCommand write_ok e)"]
    by simp
next
  case (CmdSaveFile write_ok)
  then show ?thesis
    using consistent_same [OF c, of "fst (Editor_SaveFile write_ok e)"]
      cursorClamped_same [of e "fst (Editor_SaveFile write_ok e)"]
    by simp
qed

lemma New_consistent: "consistent New"
  by (simp add: consistent_def New_def NewBuffer_def NewSelection_def inBuffer_def
      LineCount_def GetLine_def len_def)

lemma LoadFile_New_consistent: "consistent (fst (Editor_LoadFile New name r))"
proof -
  have "lines (fst (Buffer_LoadFile NewBuffer name r)) \<noteq> []"
    by (cases r) (simp_all add: Buffer_LoadFile_def NewBuffer_def Split_LF_def Split_from_nonempty)
  then have "inBuffer (fst (Buffer_LoadFile NewBuffer name r)) \<lparr>Line = 0, Col = 0\<rparr>"
    by (simp add: inBuffer_def LineCount_def len_def)
  then show ?thesis
    by (auto simp: consistent_def Editor_LoadFile_def New_def NewSelection_def split: prod.splits)
qed

lemma reachable_consistent: "reachable e \<Longrightarrow> consistent e"
proof (induction rule: reachable.induct)
  case reachable_New
  show ?case by (rule New_consistent)
next
  case (reachable_LoadFile name r)
  show ?case by (rule LoadFile_New_consistent)
next
  case (reachable_run e c e')
  then show ?case
    using run_consistent [of e c] by auto
qed

subsection \<open>The cursor after a command\<close>

lemma editor_abc_eq:
  "editor_abc = \<lparr>buffer = \<lparr>lines = [''abc''], filename = ''f'', dirty = False\<rparr>,
                  cursor = \<lparr>Line = 0, Col = 0\<rparr>,
                  selection = \<lparr>Anchor = \<lparr>Line = 0, Col = 0\<rparr>, Head = \<lparr>Line = 0, Col = 0\<rparr>\<rparr>,
                  mode = ModeNormal, command = [], clipboard = []\<rparr>"
  by (simp add: editor_abc_def Editor_LoadFile_def Buffer_LoadFile_def New_def NewBuffer_def
      NewSelection_def Split_LF_def LF_def)


lemma reachable_editor_abc: "reachable editor_abc"
  unfolding editor_abc_def by (rule reachable_LoadFile)


lemma SelectLine_editor_abc:
  "SelectLine editor_abc =
     editor_abc\<lparr>selection := \<lparr>Anchor = \<lparr>Line = 0, Col = 0\<rparr>, Head = \<lparr>Line = 0, Col = 3\<rparr>\<rparr>,
                cursor := \<lparr>Line = 0, Col = 3\<rparr>\<rparr>"
  by (simp add: editor_abc_eq SelectLine_def GetLine_def len_def Let_def)

lemma reachable_SelectLine_abc: "reachable (SelectLine editor_abc)"
  by (rule reachable_run [OF reachable_editor_abc, of CmdSelectLine]) simp

lemma isAlphaNum_abc: "isAlphaNum CHR ''a''" "isAlphaNum CHR ''b''" "isAlphaNum CHR ''c''"
  by (simp_all add: isAlphaNum_def)





subsection \<open>SetMode with the current mode\<close>

text \<open>
  C6 (as amended): \<open>SetMode\<close> with the mode the editor is already in leaves the cursor,
  the buffer and the mode unchanged. It leaves the selection unchanged when that mode is
  Visual, or when the selection is already the point at the cursor; in any other mode it
  replaces the selection by the point at the cursor.
\<close>

theorem SetMode_current_mode:
  "cursor (SetMode e (mode e)) = cursor e
   \<and> buffer (SetMode e (mode e)) = buffer e
   \<and> mode (SetMode e (mode e)) = mode e
   \<and> (mode e = ModeVisual \<or> selection e = NewSelection (cursor e) \<longrightarrow> SetMode e (mode e) = e)
   \<and> (mode e \<noteq> ModeVisual \<longrightarrow> selection (SetMode e (mode e)) = NewSelection (cursor e))"
  by (auto simp: SetMode_def Let_def)

theorem SetMode_current_mode_witness:
  "mode (SetMode (SelectLine editor_abc) ModeVisual) = ModeVisual
   \<and> selection (SetMode (SelectLine editor_abc) ModeVisual) \<noteq> NewSelection (cursor (SelectLine editor_abc))
   \<and> SetMode (SetMode (SelectLine editor_abc) ModeVisual) ModeVisual
       = SetMode (SelectLine editor_abc) ModeVisual
   \<and> mode editor_abc = ModeNormal
   \<and> SetMode editor_abc ModeNormal = editor_abc"
  using SetMode_current_mode [of "SetMode (SelectLine editor_abc) ModeVisual"]
        SetMode_current_mode [of editor_abc]
  by (simp add: SelectLine_editor_abc) (simp add: editor_abc_eq SetMode_def NewSelection_def)

text \<open>
  The claim as it was stated fails in a reachable state: after \<open>SelectLine\<close> on
  \<open>["abc"]\<close> the editor is in Normal mode with the selection \<open>{0,0}\<close>-\<open>{0,3}\<close>, and
  \<open>SetMode(Normal)\<close> collapses it to \<open>{0,3}\<close>-\<open>{0,3}\<close>.
\<close>

theorem SetMode_current_mode_counterexample:
  "reachable (SelectLine editor_abc)
   \<and> mode (SelectLine editor_abc) = ModeNormal
   \<and> selection (SelectLine editor_abc)
       = \<lparr>Anchor = \<lparr>Line = 0, Col = 0\<rparr>, Head = \<lparr>Line = 0, Col = 3\<rparr>\<rparr>
   \<and> selection (SetMode (SelectLine editor_abc) (mode (SelectLine editor_abc)))
       = \<lparr>Anchor = \<lparr>Line = 0, Col = 3\<rparr>, Head = \<lparr>Line = 0, Col = 3\<rparr>\<rparr>
   \<and> selection (SetMode (SelectLine editor_abc) (mode (SelectLine editor_abc)))
       \<noteq> selection (SelectLine editor_abc)"
  using reachable_SelectLine_abc
  by (simp add: SelectLine_editor_abc) (simp add: editor_abc_eq SetMode_def NewSelection_def)

subsection \<open>YankSelection\<close>

text \<open>
  C10: in every reachable state \<open>YankSelection\<close> returns and changes nothing but the
  clipboard: buffer (lines, file name and dirty flag), cursor, selection, mode and
  accumulator are as before; with an empty selection the editor is unchanged, the
  clipboard included.
\<close>

theorem YankSelection_only_clipboard:
  assumes "reachable e"
  shows "\<exists>e'. YankSelection e = Inr e'
           \<and> buffer e' = buffer e \<and> cursor e' = cursor e \<and> selection e' = selection e
           \<and> mode e' = mode e \<and> command e' = command e
           \<and> (IsEmpty (selection e) \<longrightarrow> e' = e)"
proof -
  obtain t where t: "YankSelection e = Inr (e\<lparr>clipboard := t\<rparr>)"
    using YankSelection_frame [OF reachable_consistent [OF assms]] by blast
  have "IsEmpty (selection e) \<Longrightarrow> e\<lparr>clipboard := t\<rparr> = e"
    using t by (simp add: YankSelection_def)
  then show ?thesis
    using t by auto
qed

theorem YankSelection_only_clipboard_witness:
  "reachable (SelectLine editor_abc)
   \<and> \<not> IsEmpty (selection (SelectLine editor_abc))
   \<and> YankSelection (SelectLine editor_abc) = Inr ((SelectLine editor_abc)\<lparr>clipboard := ''abc''\<rparr>)
   \<and> reachable editor_abc \<and> IsEmpty (selection editor_abc)
   \<and> YankSelection editor_abc = Inr editor_abc"
proof -
  have "GetSelectedText (buffer (SelectLine editor_abc)) (selection (SelectLine editor_abc)) = Inr ''abc''"
    by (simp add: SelectLine_editor_abc)
       (simp add: editor_abc_eq GetSelectedText_def Start_def End_def GetLine_def len_def slice_def)
  moreover have "\<not> IsEmpty (selection (SelectLine editor_abc))" "IsEmpty (selection editor_abc)"
    by (simp_all add: SelectLine_editor_abc IsEmpty_def) (simp add: editor_abc_eq)
  ultimately show ?thesis
    using YankSelection_only_clipboard [OF reachable_SelectLine_abc]
      YankSelection_only_clipboard [OF reachable_editor_abc]
      reachable_SelectLine_abc reachable_editor_abc
    by (auto simp: YankSelection_def)
qed

subsection \<open>MoveWordForward\<close>

lemma drop_at:
  assumes "0 \<le> col" "col < len line"
  shows "drop (nat col) line = line ! nat col # drop (nat (col + 1)) line"
proof -
  have "nat col < length line" "nat (col + 1) = Suc (nat col)"
    using assms by (simp_all add: len_def)
  then show ?thesis
    by (simp add: Cons_nth_drop_Suc)
qed

lemma drop_past_end: "\<not> col < len line \<Longrightarrow> drop (nat col) line = []"
  by (simp add: len_def)

lemma scanWordForward_inWord:
  "0 \<le> col \<Longrightarrow>
   scanWordForward line col True = Inr (col + len (takeWhile isAlphaNum (drop (nat col) line)))"
proof (induction line col True rule: scanWordForward.induct)
  case (1 line col)
  show ?case
  proof (cases "col < len line")
    case False
    then show ?thesis
      by (subst scanWordForward.simps) (simp add: drop_past_end, simp add: len_def)
  next
    case True
    let ?ch = "line ! nat col"
    have ix: "index line col = Inr ?ch"
      using True "1.prems" by (simp add: index_in_range)
    note d = drop_at [OF "1.prems" True]
    show ?thesis
    proof (cases "isAlphaNum ?ch")
      case w: True
      have "scanWordForward line (col + 1) True
              = Inr (col + 1 + len (takeWhile isAlphaNum (drop (nat (col + 1)) line)))"
        using "1.hyps"(2) [OF True, of ?ch] w "1.prems" by simp
      then show ?thesis
        using True ix w by (subst scanWordForward.simps) (simp add: d len_def)
    next
      case False
      then show ?thesis
        using True ix by (subst scanWordForward.simps) (simp add: d len_def)
    qed
  qed
qed

lemma scanWordForward_target:
  "0 \<le> col \<Longrightarrow> scanWordForward line col False = Inr (wordForwardTarget line col)"
proof (induction line col False rule: scanWordForward.induct)
  case (1 line col)
  show ?case
  proof (cases "col < len line")
    case False
    then show ?thesis
      by (subst scanWordForward.simps) (simp add: wordForwardTarget_def drop_past_end, simp add: len_def)
  next
    case True
    let ?ch = "line ! nat col"
    have ix: "index line col = Inr ?ch"
      using True "1.prems" by (simp add: index_in_range)
    note d = drop_at [OF "1.prems" True]
    show ?thesis
    proof (cases "isAlphaNum ?ch")
      case w: True
      have "scanWordForward line (col + 1) True
              = Inr (col + 1 + len (takeWhile isAlphaNum (drop (nat (col + 1)) line)))"
        using "1.prems" by (intro scanWordForward_inWord) simp
      then show ?thesis
        using True ix w by (subst scanWordForward.simps) (simp add: wordForwardTarget_def d len_def)
    next
      case False
      have "scanWordForward line (col + 1) False = Inr (wordForwardTarget line (col + 1))"
        using "1.hyps"(2) [OF True, of ?ch] False "1.prems" by simp
      then show ?thesis
        using True ix False
        by (subst scanWordForward.simps) (simp add: wordForwardTarget_def d len_def Let_def)
    qed
  qed
qed

lemma wordForwardTarget_bounds:
  assumes "0 \<le> col" "col \<le> len line"
  shows "col \<le> wordForwardTarget line col" "wordForwardTarget line col \<le> len line"
proof -
  obtain c where "scanWordForward line col False = Inr c" "col \<le> c" "c \<le> max col (len line)"
    using scanWordForward_returns [OF assms(1)] by blast
  then show "col \<le> wordForwardTarget line col" "wordForwardTarget line col \<le> len line"
    using scanWordForward_target [OF assms(1), of line] assms(2) by simp_all
qed

lemma clampCursor_in_range:
  assumes "inBuffer (buffer e) (cursor e)"
  shows "cursor (clampCursor e) =
           \<lparr>Line = Line (cursor e),
              Col = (if mode e = ModeNormal \<and> 0 < len (GetLine (buffer e) (Line (cursor e)))
                        \<and> len (GetLine (buffer e) (Line (cursor e))) \<le> Col (cursor e)
                     then len (GetLine (buffer e) (Line (cursor e))) - 1 else Col (cursor e))\<rparr>"
  using assms by (auto simp: clampCursor_def inBuffer_def Let_def)

lemma MoveWordForward_cursor:
  assumes c: "inBuffer (buffer e) (cursor e)"
  shows "\<exists>e'. MoveWordForward e = Inr e' \<and> buffer e' = buffer e \<and> mode e' = mode e
           \<and> cursor e' =
               (let line = GetLine (buffer e) (Line (cursor e));
                    target = wordForwardTarget line (Col (cursor e))
                in if target = Col (cursor e) \<and> Line (cursor e) < LineCount (buffer e) - 1
                   then \<lparr>Line = Line (cursor e) + 1, Col = 0\<rparr>
                   else \<lparr>Line = Line (cursor e),
                          Col = (if mode e = ModeNormal \<and> 0 < len line \<and> len line \<le> target
                                 then len line - 1 else target)\<rparr>)"
proof -
  let ?line = "GetLine (buffer e) (Line (cursor e))"
  let ?t = "wordForwardTarget ?line (Col (cursor e))"
  have b: "0 \<le> Col (cursor e)" "Col (cursor e) \<le> len ?line" "0 \<le> Line (cursor e)"
    "Line (cursor e) < LineCount (buffer e)"
    using c by (simp_all add: inBuffer_def)
  have s: "scanWordForward ?line (Col (cursor e)) False = Inr ?t"
    by (rule scanWordForward_target [OF b(1)])
  note tb = wordForwardTarget_bounds [OF b(1,2)]
  show ?thesis
  proof (cases "?t = Col (cursor e) \<and> Line (cursor e) < LineCount (buffer e) - 1")
    case True
    let ?e1 = "e\<lparr>cursor := \<lparr>Line = Line (cursor e) + 1, Col = 0\<rparr>\<rparr>"
    have "inBuffer (buffer ?e1) (cursor ?e1)"
      using True b by (simp add: inBuffer_def len_def)
    then have "cursor (clampCursor ?e1) = \<lparr>Line = Line (cursor e) + 1, Col = 0\<rparr>"
      using clampCursor_in_range [of ?e1] by simp
    moreover have "MoveWordForward e = Inr (followCursor (clampCursor ?e1))"
      unfolding MoveWordForward_def Let_def s using True by simp
    ultimately show ?thesis
      using True by (simp add: Let_def)
  next
    case False
    let ?e1 = "e\<lparr>cursor := (cursor e)\<lparr>Col := ?t\<rparr>\<rparr>"
    have "inBuffer (buffer ?e1) (cursor ?e1)"
      using tb b by (simp add: inBuffer_def)
    then have "cursor (clampCursor ?e1) =
                 \<lparr>Line = Line (cursor e),
                    Col = (if mode e = ModeNormal \<and> 0 < len ?line \<and> len ?line \<le> ?t
                           then len ?line - 1 else ?t)\<rparr>"
      using clampCursor_in_range [of ?e1] by simp
    moreover have "MoveWordForward e = Inr (followCursor (clampCursor ?e1))"
      unfolding MoveWordForward_def Let_def s using False by auto
    moreover have "(if ?t = Col (cursor e) \<and> Line (cursor e) < LineCount (buffer e) - 1
                    then x else y) = y" for x y :: Position
      using False by auto
    ultimately show ?thesis
      by (simp add: Let_def)
  qed
qed

lemma MoveCursorTo_abc:
  "MoveCursorTo editor_abc \<lparr>Line = 0, Col = 3\<rparr>
     = editor_abc\<lparr>cursor := \<lparr>Line = 0, Col = 2\<rparr>, selection := NewSelection \<lparr>Line = 0, Col = 2\<rparr>\<rparr>"
  by (simp add: editor_abc_eq MoveCursorTo_def clampCursor_def followCursor_def
      LineCount_def GetLine_def len_def Let_def)

lemma MoveWordForward_abc_unchanged:
  "MoveWordForward (MoveCursorTo editor_abc \<lparr>Line = 0, Col = 3\<rparr>)
     = Inr (MoveCursorTo editor_abc \<lparr>Line = 0, Col = 3\<rparr>)"
  by (simp add: MoveCursorTo_abc)
     (simp add: editor_abc_eq MoveWordForward_def clampCursor_def followCursor_def
      LineCount_def GetLine_def len_def Let_def scanWordForward.simps index_def isAlphaNum_abc
      NewSelection_def)

lemma MoveWordForward_raw:
  assumes "0 \<le> Col (cursor e)"
  shows "MoveWordForward e =
           Inr (followCursor (clampCursor (e\<lparr>cursor :=
             (let line = GetLine (buffer e) (Line (cursor e));
                  target = wordForwardTarget line (Col (cursor e))
              in if target = Col (cursor e) \<and> Line (cursor e) < LineCount (buffer e) - 1
                 then \<lparr>Line = Line (cursor e) + 1, Col = 0\<rparr>
                 else (cursor e)\<lparr>Col := target\<rparr>)\<rparr>)))"
  unfolding MoveWordForward_def Let_def scanWordForward_target [OF assms] by simp

lemma MoveWordForward_negative_column:
  "MoveWordForward (editor_abc\<lparr>cursor := \<lparr>Line = 0, Col = - 1\<rparr>\<rparr>) = Inl IndexOutOfRange"
  by (simp add: editor_abc_eq MoveWordForward_def GetLine_def len_def Let_def index_def)

text \<open>
  C7: for every line and every cursor column from 0 on, the loop of \<open>MoveWordForward\<close>
  ends at the column the specification describes (\<open>wordForwardTarget\<close>: past the leading
  non-word characters, then past the word characters, stopping at the first non-word
  character after the word or at the end of the line). If that is the cursor column and
  a following line exists the cursor goes to \<open>{line+1, 0}\<close>, otherwise to the scanned
  column; the result is then clamped. For a cursor inside the buffer the clamp leaves
  \<open>{line+1, 0}\<close> as it is and changes the scanned column only in Normal mode at the end
  of a non-empty line. On \<open>["abc"]\<close> in Normal mode, where \<open>{0,3}\<close> clamps to
  \<open>{0,2}\<close>, \<open>MoveWordForward\<close> changes nothing. (A negative cursor column, which no
  command produces, would index the line out of range.)
\<close>

theorem MoveWordForward_scan:
  assumes "0 \<le> Col (cursor e)"
  shows "MoveWordForward e =
           Inr (followCursor (clampCursor (e\<lparr>cursor :=
             (let line = GetLine (buffer e) (Line (cursor e));
                  target = wordForwardTarget line (Col (cursor e))
              in if target = Col (cursor e) \<and> Line (cursor e) < LineCount (buffer e) - 1
                 then \<lparr>Line = Line (cursor e) + 1, Col = 0\<rparr>
                 else (cursor e)\<lparr>Col := target\<rparr>)\<rparr>)))
       \<and> (inBuffer (buffer e) (cursor e) \<longrightarrow>
           (\<exists>e'. MoveWordForward e = Inr e' \<and> buffer e' = buffer e \<and> mode e' = mode e
              \<and> cursor e' =
                  (let line = GetLine (buffer e) (Line (cursor e));
                       target = wordForwardTarget line (Col (cursor e))
                   in if target = Col (cursor e) \<and> Line (cursor e) < LineCount (buffer e) - 1
                      then \<lparr>Line = Line (cursor e) + 1, Col = 0\<rparr>
                      else \<lparr>Line = Line (cursor e),
                             Col = (if mode e = ModeNormal \<and> 0 < len line \<and> len line \<le> target
                                    then len line - 1 else target)\<rparr>)))
       \<and> lines (buffer (MoveCursorTo editor_abc \<lparr>Line = 0, Col = 3\<rparr>)) = [''abc'']
       \<and> mode (MoveCursorTo editor_abc \<lparr>Line = 0, Col = 3\<rparr>) = ModeNormal
       \<and> cursor (MoveCursorTo editor_abc \<lparr>Line = 0, Col = 3\<rparr>) = \<lparr>Line = 0, Col = 2\<rparr>
       \<and> MoveWordForward (MoveCursorTo editor_abc \<lparr>Line = 0, Col = 3\<rparr>)
           = Inr (MoveCursorTo editor_abc \<lparr>Line = 0, Col = 3\<rparr>)"
proof -
  have "lines (buffer (MoveCursorTo editor_abc \<lparr>Line = 0, Col = 3\<rparr>)) = [''abc'']"
    "mode (MoveCursorTo editor_abc \<lparr>Line = 0, Col = 3\<rparr>) = ModeNormal"
    "cursor (MoveCursorTo editor_abc \<lparr>Line = 0, Col = 3\<rparr>) = \<lparr>Line = 0, Col = 2\<rparr>"
    by (simp_all add: MoveCursorTo_abc) (simp_all add: editor_abc_eq)
  then show ?thesis
    using MoveWordForward_raw [OF assms] MoveWordForward_cursor [of e]
      MoveWordForward_abc_unchanged
    by blast
qed

theorem MoveWordForward_scan_witness:
  "inBuffer \<lparr>lines = [''ab  cd;e'', ''x''], filename = [], dirty = False\<rparr> \<lparr>Line = 0, Col = 2\<rparr>
   \<and> wordForwardTarget ''ab  cd;e'' 2 = 6
   \<and> (\<exists>e'. MoveWordForward
               (New\<lparr>buffer := \<lparr>lines = [''ab  cd;e'', ''x''], filename = [], dirty = False\<rparr>,
                    cursor := \<lparr>Line = 0, Col = 2\<rparr>\<rparr>) = Inr e'
             \<and> cursor e' = \<lparr>Line = 0, Col = 6\<rparr>)
   \<and> inBuffer \<lparr>lines = [''ab  cd;e'', ''x''], filename = [], dirty = False\<rparr> \<lparr>Line = 0, Col = 8\<rparr>
   \<and> wordForwardTarget ''ab  cd;e'' 8 = 8
   \<and> (\<exists>e'. MoveWordForward
               (New\<lparr>buffer := \<lparr>lines = [''ab  cd;e'', ''x''], filename = [], dirty = False\<rparr>,
                    cursor := \<lparr>Line = 0, Col = 8\<rparr>\<rparr>) = Inr e'
             \<and> cursor e' = \<lparr>Line = 1, Col = 0\<rparr>)"
proof -
  have w: "isAlphaNum CHR ''c''" "isAlphaNum CHR ''d''" "\<not> isAlphaNum CHR '' ''"
    "\<not> isAlphaNum CHR '';''"
    by (simp_all add: isAlphaNum_def)
  have t: "wordForwardTarget ''ab  cd;e'' 2 = 6" "wordForwardTarget ''ab  cd;e'' 8 = 8"
    by (simp_all add: wordForwardTarget_def w len_def drop_Cons' Let_def)
  show ?thesis
    using MoveWordForward_scan
            [of "New\<lparr>buffer := \<lparr>lines = [''ab  cd;e'', ''x''], filename = [], dirty = False\<rparr>,
                     cursor := \<lparr>Line = 0, Col = 2\<rparr>\<rparr>", THEN conjunct2, THEN conjunct1]
          MoveWordForward_scan
            [of "New\<lparr>buffer := \<lparr>lines = [''ab  cd;e'', ''x''], filename = [], dirty = False\<rparr>,
                     cursor := \<lparr>Line = 0, Col = 8\<rparr>\<rparr>", THEN conjunct2, THEN conjunct1]
          t
    by (simp add: New_def inBuffer_def LineCount_def GetLine_def len_def) blast
qed

end
